theory Spec2Isabelle
  imports Complex_Main "HOL-Library.Word"
begin

section \<open>Data model\<close>

text \<open>
  The two kernels of BioSED read a stack of detector frames handed over as a NumPy
  array of \<open>int16_t\<close>. The array is modelled by what the kernels look at: its shape
  (\<open>request().shape\<close>, so \<open>request().ndim\<close> is the length of the list), its strides
  (counted in elements, not bytes, and possibly negative), the \<open>c_style\<close> flag and the
  memory around the data pointer: \<open>mem\<close> holds the elements from the pointer onwards,
  element 0 being the element the pointer refers to, and \<open>before\<close> the elements in front
  of it, the nearest first, which a view with a negative stride reads. The record stands
  for a writeable array, as NumPy arrays are unless the caller locks them; the flag is an
  argument of \<open>crown_integral_call\<close>, the one place where it matters.

  A \<open>double\<close> is modelled by the real number it denotes, so the doubles of the model
  are the finite ones. The accumulators of both kernels only ever hold sums of integers,
  on which double arithmetic is exact as long as the sums stay below \<open>2^53\<close>. The two
  divisions that decide the bin of a pixel are rounded as IEEE 754 rounds them
  (\<open>to_double\<close>), since the bin depends on the rounding; everywhere else a quotient, a
  square root or an arc tangent is the exact real of which the double is the rounded
  value.
\<close>

type_synonym int16 = "16 word"
type_synonym double = real

record ndarray =
  shape :: "nat list"
  strides :: "int list"
  c_style :: bool
  mem :: "int16 list"
  before :: "int16 list"

text \<open>
  Both kernels throw \<open>std::runtime_error\<close> from their own checks; \<open>ShapeError\<close> and
  \<open>ContiguityError\<close> name the check that threw. \<open>NegativeDimension\<close> is the error
  NumPy raises when asked for an array with a negative dimension, \<open>NotWriteable\<close> the
  one pybind11 throws when a mutable accessor is asked of a read-only array.
  \<open>UndefinedBehaviour\<close> is not an exception: it marks the calls on which the C++ has
  no defined result (see \<open>compute_crown_integral\<close>).
\<close>

datatype error =
  ShapeError | ContiguityError | UndefinedBehaviour | NegativeDimension | NotWriteable

section \<open>center\_of\_mass.cpp\<close>

text \<open>
  \<open>static_cast<int16_t*>(bufData.ptr)[k]\<close>: a read at a flat offset from the data
  pointer. A C-contiguous array of shape \<open>(nImages, nQY, nQX)\<close> has
  \<open>nImages * nQY * nQX\<close> elements behind the pointer, so every offset the kernel forms
  is in range.
\<close>

definition ptr_at :: "ndarray \<Rightarrow> nat \<Rightarrow> int16" where
  "ptr_at a k = mem a ! k"

text \<open>
  The body of the innermost loop (lines 70 to 82). The comparison of two \<open>int16_t\<close>
  is signed; \<open>pixel * indexQY\<close> is computed in \<open>ssize_t\<close> and then converted.
\<close>

definition com_pixel ::
  "ndarray \<Rightarrow> int16 \<Rightarrow> nat \<Rightarrow> nat \<Rightarrow> nat \<Rightarrow> nat \<Rightarrow>
   double \<times> double \<times> double \<Rightarrow> nat \<Rightarrow> double \<times> double \<times> double" where
  "com_pixel a threshold nQY nQX imageIndex indexQY acc indexQX =
     (case acc of (sumQY, sumQX, totalSum) \<Rightarrow>
        let pixel = ptr_at a (imageIndex * nQY * nQX + indexQY * nQX + indexQX) in
        if sint pixel < sint threshold then (sumQY, sumQX, totalSum)
        else (sumQY + real_of_int (sint pixel * int indexQY),
              sumQX + real_of_int (sint pixel * int indexQX),
              totalSum + real_of_int (sint pixel)))"

text \<open>The loop over \<open>indexQX\<close> (line 68) and the loop over \<open>indexQY\<close> (line 67).\<close>

definition com_row ::
  "ndarray \<Rightarrow> int16 \<Rightarrow> nat \<Rightarrow> nat \<Rightarrow> nat \<Rightarrow>
   double \<times> double \<times> double \<Rightarrow> nat \<Rightarrow> double \<times> double \<times> double" where
  "com_row a threshold nQY nQX imageIndex acc indexQY =
     foldl (com_pixel a threshold nQY nQX imageIndex indexQY) acc [0..<nQX]"

definition com_sums ::
  "ndarray \<Rightarrow> int16 \<Rightarrow> nat \<Rightarrow> nat \<Rightarrow> nat \<Rightarrow> double \<times> double \<times> double" where
  "com_sums a threshold nQY nQX imageIndex =
     foldl (com_row a threshold nQY nQX imageIndex) (0, 0, 0) [0..<nQY]"

text \<open>
  One round of the loop over the images (lines 56 to 97): the row of the result is set to
  zero, the sums start at zero, and the row is overwritten with the sentinel or with the
  two quotients.
\<close>

definition com_image ::
  "ndarray \<Rightarrow> int16 \<Rightarrow> nat \<Rightarrow> nat \<Rightarrow> nat \<Rightarrow> double \<times> double" where
  "com_image a threshold nQY nQX imageIndex =
     (case com_sums a threshold nQY nQX imageIndex of (sumQY, sumQX, totalSum) \<Rightarrow>
        if totalSum = 0 then (- 1, - 1)
        else (sumQY / totalSum, sumQX / totalSum))"

definition compute_centers_of_mass ::
  "ndarray \<Rightarrow> int16 \<Rightarrow> error + (double \<times> double) list" where
  "compute_centers_of_mass image_stack threshold =
     (if length (shape image_stack) \<noteq> 3 then Inl ShapeError
      else if \<not> c_style image_stack then Inl ContiguityError
      else
        let nImages = shape image_stack ! 0;
            nQY = shape image_stack ! 1;
            nQX = shape image_stack ! 2
        in Inr (map (com_image image_stack threshold nQY nQX) [0..<nImages]))"

section \<open>crown\_integration.cpp\<close>

text \<open>
  \<open>static_cast<int>(nQY / 2)\<close> on a shape entry, which is never negative: the integer
  quotient, rounded down.
\<close>

definition beamCenter :: "nat \<Rightarrow> int" where
  "beamCenter n = int (n div 2)"

text \<open>
  \<open>std::atan2\<close> and \<open>M_PI\<close> belong to the C library, not to this repository. \<open>atan2\<close>
  is the angle of the point \<open>(x, y)\<close> in \<open>(-\<pi>, \<pi>]\<close>, with \<open>atan2 0 0 = 0\<close>; both
  arguments come from \<open>int\<close>, so there is no negative zero. \<open>M_PI\<close> is the double
  nearest to \<open>\<pi>\<close>.
\<close>

definition atan2 :: "double \<Rightarrow> double \<Rightarrow> double" where
  "atan2 y x =
     (if 0 < x then arctan (y / x)
      else if x < 0 then (if 0 \<le> y then arctan (y / x) + pi else arctan (y / x) - pi)
      else if 0 < y then pi / 2
      else if y < 0 then - (pi / 2)
      else 0)"

definition M_PI :: double where
  "M_PI = pi"

text \<open>
  \<open>static_cast<int>\<close> of a double drops the fraction (rounds towards zero);
  \<open>std::clamp(v, lo, hi)\<close> is \<open>v < lo ? lo : hi < v ? hi : v\<close>.
\<close>

definition cast_int :: "double \<Rightarrow> int" where
  "cast_int d = (if 0 \<le> d then \<lfloor>d\<rfloor> else \<lceil>d\<rceil>)"

definition clamp :: "int \<Rightarrow> int \<Rightarrow> int \<Rightarrow> int" where
  "clamp v lo hi = (if v < lo then lo else if hi < v then hi else v)"

text \<open>
  The geometry loop (lines 71 to 91) fills four \<open>nQY \<times> nQX\<close> arrays. Each cell is
  written once, from its own indices only, and never changed afterwards, so each array
  is modelled by the function that gives the cell at \<open>(iQY, iQX)\<close>. \<open>QY\<close> and \<open>QX\<close> are
  \<open>int\<close>; frames are far smaller than the 46341 pixels a side at which
  \<open>QY*QY + QX*QX\<close> would leave the range of \<open>int\<close>.
\<close>

definition pixelsQ :: "nat \<Rightarrow> nat \<Rightarrow> double \<Rightarrow> nat \<Rightarrow> nat \<Rightarrow> double" where
  "pixelsQ nQY nQX qCallibration iQY iQX =
     (let QY = int iQY - beamCenter nQY;
          QX = int iQX - beamCenter nQX
      in sqrt (real_of_int (QY * QY + QX * QX)) * qCallibration)"

definition pixelsPhi :: "nat \<Rightarrow> nat \<Rightarrow> nat \<Rightarrow> nat \<Rightarrow> double" where
  "pixelsPhi nQY nQX iQY iQX =
     (let QY = int iQY - beamCenter nQY;
          QX = int iQX - beamCenter nQX;
          phi = atan2 (real_of_int QY) (real_of_int QX) * 180 / M_PI
      in if phi < 0 then phi + 360 else phi)"

definition validPixels ::
  "nat \<Rightarrow> nat \<Rightarrow> double \<times> double \<Rightarrow> double \<Rightarrow> nat \<Rightarrow> nat \<Rightarrow> bool" where
  "validPixels nQY nQX QRange qCallibration iQY iQX =
     (pixelsQ nQY nQX qCallibration iQY iQX \<ge> fst QRange \<and>
      pixelsQ nQY nQX qCallibration iQY iQX \<le> snd QRange)"

text \<open>
  Division of doubles. The quotient of two doubles is the double nearest to the exact
  quotient, the one with the even last digit when two are equally near (IEEE 754
  binary64, 53 significant bits): \<open>to_double\<close> rounds a real whose size lies in the
  normal range, from \<open>2^-1022\<close> up to \<open>2^1024\<close>. The quotients of line 87 lie well
  inside: \<open>360.0 / nPhiBins\<close> is at least \<open>360 / 2^31\<close>, and an angle that is not 0
  is at least the angle of one pixel seen across the frame.
\<close>

definition round_to_even :: "real \<Rightarrow> int" where
  "round_to_even r =
     (let f = \<lfloor>r\<rfloor>; d = r - real_of_int f
      in if d < 1 / 2 then f
         else if 1 / 2 < d then f + 1
         else if even f then f else f + 1)"

definition pow2 :: "int \<Rightarrow> real" where
  "pow2 e = (if 0 \<le> e then 2 ^ nat e else 1 / 2 ^ nat (- e))"

definition to_double :: "real \<Rightarrow> double" where
  "to_double x =
     (if x = 0 then 0
      else let ulp = pow2 (\<lfloor>log 2 \<bar>x\<bar>\<rfloor> - 52)
           in real_of_int (round_to_even (x / ulp)) * ulp)"

definition double_div :: "double \<Rightarrow> double \<Rightarrow> double" where
  "double_div x y = to_double (x / y)"

text \<open>
  Line 87: \<open>nPhiBins\<close> is converted to a double without loss, \<open>360.0 / nPhiBins\<close> is
  rounded, the angle divided by it is rounded again, and the cast drops the fraction.
  The angle that is divided is the exact one of \<open>pixelsPhi\<close>.
  The source assigns \<open>binIndicies(iQY, iQX)\<close> only where \<open>validPixels(iQY, iQX)\<close> holds
  and reads it only there; at any other pixel the cell is uninitialised and the value of
  this function means nothing. Nor does it mean anything for \<open>nPhiBins \<le> 0\<close>, where
  \<open>std::clamp\<close> is called with \<open>lo > hi\<close> (see \<open>compute_crown_integral\<close>).
\<close>

definition binIndicies :: "nat \<Rightarrow> nat \<Rightarrow> int \<Rightarrow> nat \<Rightarrow> nat \<Rightarrow> int" where
  "binIndicies nQY nQX nPhiBins iQY iQX =
     clamp (cast_int (double_div (pixelsPhi nQY nQX iQY iQX)
                        (double_div 360 (real_of_int nPhiBins))))
       0 (nPhiBins - 1)"

text \<open>
  \<open>sedData(iImage, iQY, iQX)\<close> goes through \<open>mutable_unchecked<3>()\<close>, which follows
  the strides of the array: the element at the signed offset
  \<open>iImage * strides[0] + iQY * strides[1] + iQX * strides[2]\<close> from the data pointer.
\<close>

definition element_at :: "ndarray \<Rightarrow> int \<Rightarrow> int16" where
  "element_at a k = (if 0 \<le> k then mem a ! nat k else before a ! nat (- k - 1))"

definition sedData :: "ndarray \<Rightarrow> nat \<Rightarrow> nat \<Rightarrow> nat \<Rightarrow> int16" where
  "sedData a iImage iQY iQX =
     element_at a (int iImage * strides a ! 0 + int iQY * strides a ! 1
                     + int iQX * strides a ! 2)"

text \<open>
  The body of the accumulation loop (lines 114 to 117); the accumulators are the two
  vectors \<open>phiBinsSum\<close> and \<open>pixelCount\<close>.
\<close>

definition crown_pixel ::
  "ndarray \<Rightarrow> int \<Rightarrow> double \<times> double \<Rightarrow> double \<Rightarrow> nat \<Rightarrow> nat \<Rightarrow> nat \<Rightarrow> nat \<Rightarrow>
   double list \<times> int list \<Rightarrow> nat \<Rightarrow> double list \<times> int list" where
  "crown_pixel a nPhiBins QRange qCallibration nQY nQX iImage iQY acc iQX =
     (case acc of (phiBinsSum, pixelCount) \<Rightarrow>
        if \<not> validPixels nQY nQX QRange qCallibration iQY iQX then (phiBinsSum, pixelCount)
        else if sint (sedData a iImage iQY iQX) < 0 then (phiBinsSum, pixelCount)
        else
          let b = nat (binIndicies nQY nQX nPhiBins iQY iQX) in
          (phiBinsSum[b := phiBinsSum ! b + real_of_int (sint (sedData a iImage iQY iQX))],
           pixelCount[b := pixelCount ! b + 1]))"

definition crown_row ::
  "ndarray \<Rightarrow> int \<Rightarrow> double \<times> double \<Rightarrow> double \<Rightarrow> nat \<Rightarrow> nat \<Rightarrow> nat \<Rightarrow>
   double list \<times> int list \<Rightarrow> nat \<Rightarrow> double list \<times> int list" where
  "crown_row a nPhiBins QRange qCallibration nQY nQX iImage acc iQY =
     foldl (crown_pixel a nPhiBins QRange qCallibration nQY nQX iImage iQY) acc [0..<nQX]"

text \<open>
  Lines 109 to 119: both vectors are created afresh, filled with zeros, inside the loop
  over the images, then the frame is swept.
\<close>

definition crown_sums ::
  "ndarray \<Rightarrow> int \<Rightarrow> double \<times> double \<Rightarrow> double \<Rightarrow> nat \<Rightarrow> nat \<Rightarrow> nat \<Rightarrow>
   double list \<times> int list" where
  "crown_sums a nPhiBins QRange qCallibration nQY nQX iImage =
     foldl (crown_row a nPhiBins QRange qCallibration nQY nQX iImage)
       (replicate (nat nPhiBins) 0, replicate (nat nPhiBins) 0) [0..<nQY]"

text \<open>
  Lines 101 to 105 and 122 to 128: the row of the result starts as zeros, and a bin that
  counted a pixel is overwritten with its mean.
\<close>

definition crown_image ::
  "ndarray \<Rightarrow> int \<Rightarrow> double \<times> double \<Rightarrow> double \<Rightarrow> nat \<Rightarrow> nat \<Rightarrow> nat \<Rightarrow> double list" where
  "crown_image a nPhiBins QRange qCallibration nQY nQX iImage =
     (case crown_sums a nPhiBins QRange qCallibration nQY nQX iImage of
        (phiBinsSum, pixelCount) \<Rightarrow>
          map (\<lambda>iPhiBins.
                 if pixelCount ! iPhiBins > 0
                 then phiBinsSum ! iPhiBins / real_of_int (pixelCount ! iPhiBins)
                 else 0)
            [0..<nat nPhiBins])"

text \<open>
  The function on a writeable stack, in the order of the source.
  \<^item> Lines 45 to 48: the only check of the function, on \<open>ndim\<close>.
  \<^item> Lines 71 to 91: the geometry. Line 88 calls \<open>std::clamp(v, 0, nPhiBins - 1)\<close> for
    every valid pixel; with \<open>nPhiBins \<le> 0\<close> that is a call with \<open>lo > hi\<close>, for which
    C++ defines no result, and the model stops with \<open>UndefinedBehaviour\<close>. A frame
    without a valid pixel never reaches the call.
  \<^item> Lines 96 to 97: the result is allocated with the shape \<open>(nImages, nPhiBins)\<close>,
    which NumPy refuses when \<open>nPhiBins\<close> is negative.
  \<^item> Lines 101 to 129: the rows of the result. With \<open>nPhiBins = 0\<close> they are empty.
\<close>

definition has_valid_pixel :: "nat \<Rightarrow> nat \<Rightarrow> double \<times> double \<Rightarrow> double \<Rightarrow> bool" where
  "has_valid_pixel nQY nQX QRange qCallibration =
     (\<exists>iQY<nQY. \<exists>iQX<nQX. validPixels nQY nQX QRange qCallibration iQY iQX)"

definition compute_crown_integral ::
  "ndarray \<Rightarrow> int \<Rightarrow> double \<times> double \<Rightarrow> double \<Rightarrow> error + double list list" where
  "compute_crown_integral sedDataArray nPhiBins QRange qCallibration =
     (if length (shape sedDataArray) \<noteq> 3 then Inl ShapeError
      else
        let nImages = shape sedDataArray ! 0;
            nQY = shape sedDataArray ! 1;
            nQX = shape sedDataArray ! 2
        in if nPhiBins \<le> 0 \<and> has_valid_pixel nQY nQX QRange qCallibration
           then Inl UndefinedBehaviour
           else if nPhiBins < 0 then Inl NegativeDimension
           else Inr (map (crown_image sedDataArray nPhiBins QRange qCallibration nQY nQX)
                       [0..<nImages]))"

text \<open>
  The call on an array whose \<open>WRITEABLE\<close> flag is \<open>writeable\<close>. Line 106 asks for
  \<open>mutable_unchecked<3>()\<close>, which pybind11 refuses for a read-only array. The line comes
  after the geometry and the allocation of the result, and before the first sample is
  read, so their failures come first and a read-only array fails where a writeable one
  would have gone on to the sweep.
\<close>

definition crown_integral_call ::
  "bool \<Rightarrow> ndarray \<Rightarrow> int \<Rightarrow> double \<times> double \<Rightarrow> double \<Rightarrow> error + double list list" where
  "crown_integral_call writeable sedDataArray nPhiBins QRange qCallibration =
     (case compute_crown_integral sedDataArray nPhiBins QRange qCallibration of
        Inl e \<Rightarrow> Inl e
      | Inr aziIntensityProfiles \<Rightarrow>
          if writeable then Inr aziIntensityProfiles else Inl NotWriteable)"

section \<open>The specification's quantities\<close>

subsection \<open>Thresholded centroid\<close>

text \<open>
  The sample at \<open>(y, x)\<close> of image \<open>i\<close> of a row-major stack, and the specification's
  three sums over the pixels that meet the threshold (section 4.2 of the specification).
\<close>

definition raw_pixel :: "ndarray \<Rightarrow> nat \<Rightarrow> nat \<Rightarrow> nat \<Rightarrow> nat \<Rightarrow> nat \<Rightarrow> int" where
  "raw_pixel a nQY nQX i y x = sint (ptr_at a (i * nQY * nQX + y * nQX + x))"

definition meets_threshold ::
  "ndarray \<Rightarrow> int16 \<Rightarrow> nat \<Rightarrow> nat \<Rightarrow> nat \<Rightarrow> nat \<Rightarrow> nat \<Rightarrow> bool" where
  "meets_threshold a threshold nQY nQX i y x = (sint threshold \<le> raw_pixel a nQY nQX i y x)"

definition spec_sumY :: "ndarray \<Rightarrow> int16 \<Rightarrow> nat \<Rightarrow> nat \<Rightarrow> nat \<Rightarrow> real" where
  "spec_sumY a threshold nQY nQX i =
     (\<Sum>y<nQY. \<Sum>x<nQX. if meets_threshold a threshold nQY nQX i y x
        then real_of_int (raw_pixel a nQY nQX i y x) * real y else 0)"

definition spec_sumX :: "ndarray \<Rightarrow> int16 \<Rightarrow> nat \<Rightarrow> nat \<Rightarrow> nat \<Rightarrow> real" where
  "spec_sumX a threshold nQY nQX i =
     (\<Sum>y<nQY. \<Sum>x<nQX. if meets_threshold a threshold nQY nQX i y x
        then real_of_int (raw_pixel a nQY nQX i y x) * real x else 0)"

definition spec_total :: "ndarray \<Rightarrow> int16 \<Rightarrow> nat \<Rightarrow> nat \<Rightarrow> nat \<Rightarrow> real" where
  "spec_total a threshold nQY nQX i =
     (\<Sum>y<nQY. \<Sum>x<nQX. if meets_threshold a threshold nQY nQX i y x
        then real_of_int (raw_pixel a nQY nQX i y x) else 0)"

subsection \<open>Azimuthal integration\<close>

text \<open>
  A pixel contributes to image \<open>i\<close> when it is valid and its sample is not negative; the
  pixels of a bin are the contributing pixels whose bin index is that bin (section 4.3).
\<close>

definition contributes ::
  "ndarray \<Rightarrow> double \<times> double \<Rightarrow> double \<Rightarrow> nat \<Rightarrow> nat \<Rightarrow> nat \<Rightarrow> nat \<Rightarrow> nat \<Rightarrow> bool" where
  "contributes a QRange qCal nQY nQX i y x =
     (validPixels nQY nQX QRange qCal y x \<and> 0 \<le> sint (sedData a i y x))"

definition bin_pixels ::
  "ndarray \<Rightarrow> int \<Rightarrow> double \<times> double \<Rightarrow> double \<Rightarrow> nat \<Rightarrow> nat \<Rightarrow> nat \<Rightarrow> nat \<Rightarrow>
   (nat \<times> nat) set" where
  "bin_pixels a nPhiBins QRange qCal nQY nQX i b =
     {(y, x). y < nQY \<and> x < nQX \<and> contributes a QRange qCal nQY nQX i y x \<and>
              binIndicies nQY nQX nPhiBins y x = int b}"

definition spec_bin_sum ::
  "ndarray \<Rightarrow> int \<Rightarrow> double \<times> double \<Rightarrow> double \<Rightarrow> nat \<Rightarrow> nat \<Rightarrow> nat \<Rightarrow> nat \<Rightarrow> real" where
  "spec_bin_sum a nPhiBins QRange qCal nQY nQX i b =
     (\<Sum>(y, x)\<in>bin_pixels a nPhiBins QRange qCal nQY nQX i b.
        real_of_int (sint (sedData a i y x)))"

definition spec_bin_count ::
  "ndarray \<Rightarrow> int \<Rightarrow> double \<times> double \<Rightarrow> double \<Rightarrow> nat \<Rightarrow> nat \<Rightarrow> nat \<Rightarrow> nat \<Rightarrow> nat" where
  "spec_bin_count a nPhiBins QRange qCal nQY nQX i b =
     card (bin_pixels a nPhiBins QRange qCal nQY nQX i b)"

text \<open>
  The bin index in the specification's words (section 3):
  \<open>clamp(floor(angleDeg / (360 / nPhiBins)), 0, nPhiBins - 1)\<close>.
\<close>

definition spec_binIndex :: "nat \<Rightarrow> nat \<Rightarrow> int \<Rightarrow> nat \<Rightarrow> nat \<Rightarrow> int" where
  "spec_binIndex nQY nQX nPhiBins y x =
     max 0 (min (nPhiBins - 1) \<lfloor>pixelsPhi nQY nQX y x / (360 / real_of_int nPhiBins)\<rfloor>)"

section \<open>Sample stacks\<close>

text \<open>Two 2 by 2 frames: nothing in the first, two lit pixels in the second.\<close>

definition two_frames :: ndarray where
  "two_frames = \<lparr>shape = [2, 2, 2], strides = [4, 2, 1], c_style = True,
                  mem = [0, 0, 0, 0, 1, 0, 0, 3], before = []\<rparr>"

text \<open>A single pixel of value 0.\<close>

definition zero_pixel :: ndarray where
  "zero_pixel = \<lparr>shape = [1, 1, 1], strides = [1, 1, 1], c_style = True,
                  mem = [0], before = []\<rparr>"

text \<open>One 2 by 2 frame of masked (negative) samples around a single 0 at \<open>(1, 1)\<close>.\<close>

definition lone_zero :: ndarray where
  "lone_zero = \<lparr>shape = [1, 2, 2], strides = [4, 2, 1], c_style = True,
                 mem = [- 1, - 1, - 1, 0], before = []\<rparr>"

text \<open>One 2 by 2 frame with a single lit pixel at \<open>(1, 0)\<close>.\<close>

definition lone_pixel :: ndarray where
  "lone_pixel = \<lparr>shape = [1, 2, 2], strides = [4, 2, 1], c_style = True,
                  mem = [0, 0, 7, 0], before = []\<rparr>"

text \<open>Two frames of one row and two columns; the second frame has a masked sample.\<close>

definition pair_frames :: ndarray where
  "pair_frames = \<lparr>shape = [2, 1, 2], strides = [2, 2, 1], c_style = True,
                   mem = [5, 7, - 3, 4], before = []\<rparr>"

text \<open>
  Every second column of a frame of one row and three columns (the view
  \<open>a[:, :, ::2]\<close> of NumPy): the samples 5 and 7, two elements apart, not C-contiguous.
\<close>

definition strided :: ndarray where
  "strided = \<lparr>shape = [1, 1, 2], strides = [3, 3, 2], c_style = False,
               mem = [5, 9, 7], before = []\<rparr>"

text \<open>The same two samples copied to a C-contiguous array.\<close>

definition strided_copy :: ndarray where
  "strided_copy = \<lparr>shape = [1, 1, 2], strides = [2, 2, 1], c_style = True,
                    mem = [5, 7], before = []\<rparr>"

text \<open>
  The frame \<open>[[1, 2], [3, 4]]\<close> with its rows in reverse order (the view
  \<open>a[:, ::-1, :]\<close>): the data pointer is at the 3, the row stride is \<open>-2\<close>, and the
  row \<open>[1, 2]\<close> lies in front of the pointer. Not C-contiguous.
\<close>

definition rows_reversed :: ndarray where
  "rows_reversed = \<lparr>shape = [1, 2, 2], strides = [4, - 2, 1], c_style = False,
                     mem = [3, 4], before = [2, 1]\<rparr>"

text \<open>The same frame, \<open>[[3, 4], [1, 2]]\<close>, copied to a C-contiguous array.\<close>

definition rows_reversed_copy :: ndarray where
  "rows_reversed_copy = \<lparr>shape = [1, 2, 2], strides = [4, 2, 1], c_style = True,
                          mem = [3, 4, 1, 2], before = []\<rparr>"

text \<open>One 3 by 3 frame holding 1 to 9; the beam centre \<open>(1, 1)\<close> holds the 5.\<close>

definition nine_pixels :: ndarray where
  "nine_pixels = \<lparr>shape = [1, 3, 3], strides = [9, 3, 1], c_style = True,
                   mem = [1, 2, 3, 4, 5, 6, 7, 8, 9], before = []\<rparr>"

section \<open>Small ranges\<close>

lemma upt1: "[0..<1] = [0]"
  by simp

lemma upt2: "[0..<2] = [0, 1]"
  by (simp add: upt_rec)

lemma lt1: "{..<1::nat} = {0}"
  by auto

lemma lt2: "{..<2::nat} = {0, 1}"
  by auto

section \<open>The centroid kernel computes the specification's sums\<close>

text \<open>
  The inner loop adds, to each of the three accumulators, the contribution of the pixels
  of one row; the outer loop does so for the rows of one image.
\<close>

lemma com_pixel_fold:
  "foldl (com_pixel a t nQY nQX i y) (sy, sx, tt) [0..<n] =
     (sy + (\<Sum>x<n. if meets_threshold a t nQY nQX i y x
                then real_of_int (raw_pixel a nQY nQX i y x) * real y else 0),
      sx + (\<Sum>x<n. if meets_threshold a t nQY nQX i y x
                then real_of_int (raw_pixel a nQY nQX i y x) * real x else 0),
      tt + (\<Sum>x<n. if meets_threshold a t nQY nQX i y x
                then real_of_int (raw_pixel a nQY nQX i y x) else 0))"
  by (induction n) (simp_all add: com_pixel_def meets_threshold_def raw_pixel_def Let_def not_less)

lemma com_row_fold:
  "foldl (com_row a t nQY nQX i) (sy, sx, tt) [0..<m] =
     (sy + (\<Sum>y<m. \<Sum>x<nQX. if meets_threshold a t nQY nQX i y x
                then real_of_int (raw_pixel a nQY nQX i y x) * real y else 0),
      sx + (\<Sum>y<m. \<Sum>x<nQX. if meets_threshold a t nQY nQX i y x
                then real_of_int (raw_pixel a nQY nQX i y x) * real x else 0),
      tt + (\<Sum>y<m. \<Sum>x<nQX. if meets_threshold a t nQY nQX i y x
                then real_of_int (raw_pixel a nQY nQX i y x) else 0))"
  by (induction m) (simp_all add: com_row_def com_pixel_fold)

lemma com_sums_spec:
  "com_sums a t nQY nQX i =
     (spec_sumY a t nQY nQX i, spec_sumX a t nQY nQX i, spec_total a t nQY nQX i)"
  by (simp add: com_sums_def com_row_fold spec_sumY_def spec_sumX_def spec_total_def)

lemma com_image_spec:
  "com_image a t nQY nQX i =
     (if spec_total a t nQY nQX i = 0 then (- 1, - 1)
      else (spec_sumY a t nQY nQX i / spec_total a t nQY nQX i,
            spec_sumX a t nQY nQX i / spec_total a t nQY nQX i))"
  by (simp add: com_image_def com_sums_spec)

lemma compute_centers_of_mass_Inr:
  assumes "length (shape a) = 3" and "c_style a"
  shows "compute_centers_of_mass a t =
           Inr (map (com_image a t (shape a ! 1) (shape a ! 2)) [0..<shape a ! 0])"
  using assms by (simp add: compute_centers_of_mass_def Let_def)

text \<open>
  Claim C2. For a three-dimensional, C-contiguous stack and any threshold,
  \<open>compute_centers_of_mass\<close> returns one pair per image, in the order of the images.
  The pair of image \<open>i\<close> is built from \<open>sumY = \<Sum> p\<cdot>y\<close>, \<open>sumX = \<Sum> p\<cdot>x\<close> and
  \<open>total = \<Sum> p\<close>, each taken over exactly the pixels of image \<open>i\<close> with
  \<open>p \<ge> threshold\<close>: it is the sentinel \<open>(-1, -1)\<close> when \<open>total = 0\<close> and
  \<open>(sumY / total, sumX / total)\<close> otherwise.
\<close>

theorem compute_centers_of_mass_refines_spec:
  assumes "length (shape a) = 3" and "c_style a"
  shows "compute_centers_of_mass a t =
     Inr (map (\<lambda>i. if spec_total a t (shape a ! 1) (shape a ! 2) i = 0 then (- 1, - 1)
                   else (spec_sumY a t (shape a ! 1) (shape a ! 2) i
                           / spec_total a t (shape a ! 1) (shape a ! 2) i,
                         spec_sumX a t (shape a ! 1) (shape a ! 2) i
                           / spec_total a t (shape a ! 1) (shape a ! 2) i))
              [0..<shape a ! 0])"
  using assms by (simp add: compute_centers_of_mass_Inr com_image_spec)

theorem compute_centers_of_mass_refines_spec_witness:
  "length (shape two_frames) = 3 \<and> c_style two_frames
   \<and> compute_centers_of_mass two_frames 1 = Inr [(- 1, - 1), (3 / 4, 3 / 4)]"
  using compute_centers_of_mass_refines_spec [of two_frames 1]
  by (simp add: two_frames_def spec_total_def spec_sumY_def spec_sumX_def
      meets_threshold_def raw_pixel_def ptr_at_def upt2 lt2)

section \<open>Thresholds of at least 1\<close>

text \<open>
  With a threshold of at least 1 every pixel that is added has a positive weight, so
  the total is zero only when nothing was added and the quotients are weighted means
  of pixel coordinates.
\<close>

lemma term_nonneg:
  assumes "1 \<le> sint t"
  shows "0 \<le> (if meets_threshold a t nQY nQX i y x
              then real_of_int (raw_pixel a nQY nQX i y x) else 0)"
  using assms by (simp add: meets_threshold_def)

lemma spec_total_nonneg:
  assumes "1 \<le> sint t"
  shows "0 \<le> spec_total a t nQY nQX i"
  unfolding spec_total_def using term_nonneg [OF assms]
  by (intro sum_nonneg)

lemma spec_total_eq_0_iff:
  assumes "1 \<le> sint t"
  shows "spec_total a t nQY nQX i = 0 \<longleftrightarrow>
           (\<forall>y<nQY. \<forall>x<nQX. \<not> meets_threshold a t nQY nQX i y x)"
proof -
  have inner: "(\<Sum>x<nQX. if meets_threshold a t nQY nQX i y x
                  then real_of_int (raw_pixel a nQY nQX i y x) else 0) = 0
               \<longleftrightarrow> (\<forall>x<nQX. \<not> meets_threshold a t nQY nQX i y x)" for y
  proof -
    have "(\<Sum>x<nQX. if meets_threshold a t nQY nQX i y x
                  then real_of_int (raw_pixel a nQY nQX i y x) else 0) = 0
          \<longleftrightarrow> (\<forall>x\<in>{..<nQX}. (if meets_threshold a t nQY nQX i y x
                  then real_of_int (raw_pixel a nQY nQX i y x) else 0) = 0)"
      using term_nonneg [OF assms] by (intro sum_nonneg_eq_0_iff) simp_all
    also have "\<dots> \<longleftrightarrow> (\<forall>x<nQX. \<not> meets_threshold a t nQY nQX i y x)"
      using assms by (auto simp: meets_threshold_def)
    finally show ?thesis .
  qed
  have "spec_total a t nQY nQX i = 0 \<longleftrightarrow>
        (\<forall>y\<in>{..<nQY}. (\<Sum>x<nQX. if meets_threshold a t nQY nQX i y x
                  then real_of_int (raw_pixel a nQY nQX i y x) else 0) = 0)"
    unfolding spec_total_def
    by (rule sum_nonneg_eq_0_iff) (simp_all add: sum_nonneg term_nonneg [OF assms])
  then show ?thesis by (auto simp: inner)
qed

lemma spec_total_none:
  assumes "\<forall>y<nQY. \<forall>x<nQX. \<not> meets_threshold a t nQY nQX i y x"
  shows "spec_total a t nQY nQX i = 0"
  using assms by (simp add: spec_total_def)

lemma spec_sumY_bounds:
  assumes "1 \<le> sint t"
  shows "0 \<le> spec_sumY a t nQY nQX i"
    and "spec_sumY a t nQY nQX i \<le> (real nQY - 1) * spec_total a t nQY nQX i"
proof -
  show "0 \<le> spec_sumY a t nQY nQX i"
    unfolding spec_sumY_def using assms
    by (intro sum_nonneg) (simp add: meets_threshold_def)
  have "(if meets_threshold a t nQY nQX i y x
           then real_of_int (raw_pixel a nQY nQX i y x) * real y else 0)
        \<le> (real nQY - 1) * (if meets_threshold a t nQY nQX i y x
           then real_of_int (raw_pixel a nQY nQX i y x) else 0)"
    if "y < nQY" for y x
  proof (cases "meets_threshold a t nQY nQX i y x")
    case True
    then have "0 \<le> real_of_int (raw_pixel a nQY nQX i y x)"
      using assms by (simp add: meets_threshold_def)
    moreover have "real y \<le> real nQY - 1" using that by linarith
    ultimately show ?thesis using True
      by (simp add: mult.commute [of "real_of_int (raw_pixel a nQY nQX i y x)"] mult_right_mono)
  qed simp
  then show "spec_sumY a t nQY nQX i \<le> (real nQY - 1) * spec_total a t nQY nQX i"
    unfolding spec_sumY_def spec_total_def sum_distrib_left
    by (intro sum_mono) simp
qed

lemma spec_sumX_bounds:
  assumes "1 \<le> sint t"
  shows "0 \<le> spec_sumX a t nQY nQX i"
    and "spec_sumX a t nQY nQX i \<le> (real nQX - 1) * spec_total a t nQY nQX i"
proof -
  show "0 \<le> spec_sumX a t nQY nQX i"
    unfolding spec_sumX_def using assms
    by (intro sum_nonneg) (simp add: meets_threshold_def)
  have "(if meets_threshold a t nQY nQX i y x
           then real_of_int (raw_pixel a nQY nQX i y x) * real x else 0)
        \<le> (real nQX - 1) * (if meets_threshold a t nQY nQX i y x
           then real_of_int (raw_pixel a nQY nQX i y x) else 0)"
    if "x < nQX" for y x
  proof (cases "meets_threshold a t nQY nQX i y x")
    case True
    then have "0 \<le> real_of_int (raw_pixel a nQY nQX i y x)"
      using assms by (simp add: meets_threshold_def)
    moreover have "real x \<le> real nQX - 1" using that by linarith
    ultimately show ?thesis using True
      by (simp add: mult.commute [of "real_of_int (raw_pixel a nQY nQX i y x)"] mult_right_mono)
  qed simp
  then show "spec_sumX a t nQY nQX i \<le> (real nQX - 1) * spec_total a t nQY nQX i"
    unfolding spec_sumX_def spec_total_def sum_distrib_left
    by (intro sum_mono) simp
qed

lemma com_image_sentinel_iff:
  assumes "1 \<le> sint t"
  shows "com_image a t nQY nQX i = (- 1, - 1) \<longleftrightarrow>
           (\<forall>y<nQY. \<forall>x<nQX. \<not> meets_threshold a t nQY nQX i y x)"
proof (cases "spec_total a t nQY nQX i = 0")
  case True
  then show ?thesis
    using spec_total_eq_0_iff [OF assms, of a nQY nQX i] by (simp add: com_image_spec)
next
  case False
  then have pos: "0 < spec_total a t nQY nQX i"
    using spec_total_nonneg [OF assms, of a nQY nQX i] by simp
  have "0 \<le> spec_sumY a t nQY nQX i / spec_total a t nQY nQX i"
    using pos spec_sumY_bounds(1) [OF assms, of a nQY nQX i] by simp
  then have "com_image a t nQY nQX i \<noteq> (- 1, - 1)"
    using False by (simp add: com_image_spec)
  then show ?thesis
    using False spec_total_eq_0_iff [OF assms, of a nQY nQX i] by simp
qed

lemma com_image_none:
  assumes "\<forall>y<nQY. \<forall>x<nQX. \<not> meets_threshold a t nQY nQX i y x"
  shows "com_image a t nQY nQX i = (- 1, - 1)"
  using spec_total_none [OF assms] by (simp add: com_image_spec)

text \<open>
  Claim C3, as amended. For every image of a three-dimensional, C-contiguous stack:
  if no pixel of the image has a value \<open>\<ge> threshold\<close>, the output for the image is the
  sentinel \<open>(-1, -1)\<close>, whatever the threshold; and when the threshold is at least 1,
  the output is the sentinel if and only if no pixel of the image has a value
  \<open>\<ge> threshold\<close>.
\<close>

theorem sentinel_iff_no_pixel_meets_threshold:
  assumes "length (shape a) = 3" and "c_style a" and "i < shape a ! 0"
  shows "\<exists>out. compute_centers_of_mass a t = Inr out \<and>
     ((\<forall>y < shape a ! 1. \<forall>x < shape a ! 2.
          \<not> meets_threshold a t (shape a ! 1) (shape a ! 2) i y x)
        \<longrightarrow> out ! i = (- 1, - 1)) \<and>
     (1 \<le> sint t \<longrightarrow>
        (out ! i = (- 1, - 1) \<longleftrightarrow>
           (\<forall>y < shape a ! 1. \<forall>x < shape a ! 2.
              \<not> meets_threshold a t (shape a ! 1) (shape a ! 2) i y x)))"
  using assms com_image_none [of "shape a ! 1" "shape a ! 2" a t i]
    com_image_sentinel_iff [of t a "shape a ! 1" "shape a ! 2" i]
  by (simp add: compute_centers_of_mass_Inr)

text \<open>
  The claim as first stated fails for a threshold below 1: the single pixel of
  \<open>zero_pixel\<close> has the value 0, which meets the threshold \<open>-1\<close>, and the output is the
  sentinel all the same, since the guard of the source is \<open>totalSum == 0.0\<close>.
\<close>

theorem sentinel_despite_qualifying_pixel:
  "compute_centers_of_mass zero_pixel (- 1) = Inr [(- 1, - 1)]
   \<and> meets_threshold zero_pixel (- 1) 1 1 0 0 0"
  by (simp add: compute_centers_of_mass_Inr com_image_spec zero_pixel_def spec_total_def
      meets_threshold_def raw_pixel_def ptr_at_def upt1 lt1)

theorem sentinel_iff_no_pixel_meets_threshold_witness:
  "1 \<le> sint (1 :: int16)
   \<and> (\<exists>out. compute_centers_of_mass two_frames 1 = Inr out
         \<and> out ! 0 = (- 1, - 1) \<and> out ! 1 \<noteq> (- 1, - 1))
   \<and> \<not> meets_threshold two_frames 1 2 2 0 0 0
   \<and> \<not> meets_threshold two_frames 1 2 2 0 0 1
   \<and> \<not> meets_threshold two_frames 1 2 2 0 1 0
   \<and> \<not> meets_threshold two_frames 1 2 2 0 1 1
   \<and> meets_threshold two_frames 1 2 2 1 0 0"
  using sentinel_iff_no_pixel_meets_threshold [of two_frames 0 1]
    sentinel_iff_no_pixel_meets_threshold [of two_frames 1 1]
  by (auto simp: two_frames_def meets_threshold_def raw_pixel_def ptr_at_def
        less_Suc_eq numeral_2_eq_2 nth_Cons')

section \<open>A single qualifying pixel\<close>

lemma single_sum:
  fixes f :: "nat \<Rightarrow> nat \<Rightarrow> real"
  assumes "y0 < m" and "x0 < n"
    and "\<forall>y<m. \<forall>x<n. P y x \<longleftrightarrow> (y = y0 \<and> x = x0)"
  shows "(\<Sum>y<m. \<Sum>x<n. if P y x then f y x else 0) = f y0 x0"
proof -
  have "(\<Sum>y<m. \<Sum>x<n. if P y x then f y x else 0)
        = (\<Sum>y<m. \<Sum>x<n. if x = x0 then (if y = y0 then f y0 x0 else 0) else 0)"
    using assms(3) by (intro sum.cong refl) auto
  also have "\<dots> = (\<Sum>y<m. if y = y0 then f y0 x0 else 0)"
    using assms(2) by (simp add: sum.delta)
  also have "\<dots> = f y0 x0"
    using assms(1) by (simp add: sum.delta)
  finally show ?thesis .
qed

lemma com_image_single:
  assumes "y0 < nQY" and "x0 < nQX"
    and "\<forall>y<nQY. \<forall>x<nQX. meets_threshold a t nQY nQX i y x \<longleftrightarrow> (y = y0 \<and> x = x0)"
    and "raw_pixel a nQY nQX i y0 x0 \<noteq> 0"
  shows "com_image a t nQY nQX i = (real y0, real x0)"
  using assms(4)
  by (simp add: com_image_spec spec_total_def spec_sumY_def spec_sumX_def
      single_sum [OF assms(1,2,3)])

text \<open>
  Claim C6, as amended. If exactly one pixel \<open>(y0, x0)\<close> of an image has a value
  \<open>\<ge> threshold\<close>, all others being strictly below it, and that value is not 0, then
  the output for the image is exactly \<open>(y0, x0)\<close>.
\<close>

theorem single_pixel_centroid:
  assumes "length (shape a) = 3" and "c_style a" and "i < shape a ! 0"
    and "y0 < shape a ! 1" and "x0 < shape a ! 2"
    and "\<forall>y < shape a ! 1. \<forall>x < shape a ! 2.
           meets_threshold a t (shape a ! 1) (shape a ! 2) i y x \<longleftrightarrow> (y = y0 \<and> x = x0)"
    and "raw_pixel a (shape a ! 1) (shape a ! 2) i y0 x0 \<noteq> 0"
  shows "\<exists>out. compute_centers_of_mass a t = Inr out \<and> out ! i = (real y0, real x0)"
  using assms(1,2,3) com_image_single [OF assms(4,5,6,7)]
  by (simp add: compute_centers_of_mass_Inr)

text \<open>
  The claim as first stated fails when the one qualifying pixel has the value 0, which a
  threshold of 0 or below admits: in \<open>lone_zero\<close> only the pixel \<open>(1, 1)\<close> meets the
  threshold 0, and the output is the sentinel, not \<open>(1, 1)\<close>.
\<close>

theorem single_zero_pixel_gives_sentinel:
  "compute_centers_of_mass lone_zero 0 = Inr [(- 1, - 1)]
   \<and> meets_threshold lone_zero 0 2 2 0 1 1
   \<and> \<not> meets_threshold lone_zero 0 2 2 0 0 0
   \<and> \<not> meets_threshold lone_zero 0 2 2 0 0 1
   \<and> \<not> meets_threshold lone_zero 0 2 2 0 1 0"
  by (simp add: compute_centers_of_mass_Inr com_image_spec lone_zero_def spec_total_def
      meets_threshold_def raw_pixel_def ptr_at_def upt1 lt2)

theorem single_pixel_centroid_witness:
  "meets_threshold lone_pixel 1 2 2 0 1 0 \<and> raw_pixel lone_pixel 2 2 0 1 0 = 7
   \<and> (\<exists>out. compute_centers_of_mass lone_pixel 1 = Inr out \<and> out ! 0 = (1, 0))"
  using single_pixel_centroid [of lone_pixel 0 1 0 1]
  by (auto simp: lone_pixel_def meets_threshold_def raw_pixel_def ptr_at_def
        less_Suc_eq numeral_2_eq_2 nth_Cons')

section \<open>The centroid lies in the frame\<close>

lemma com_image_bounds:
  assumes "1 \<le> sint t" and "com_image a t nQY nQX i \<noteq> (- 1, - 1)"
  shows "0 \<le> fst (com_image a t nQY nQX i)"
    and "fst (com_image a t nQY nQX i) \<le> real nQY - 1"
    and "0 \<le> snd (com_image a t nQY nQX i)"
    and "snd (com_image a t nQY nQX i) \<le> real nQX - 1"
proof -
  have nz: "spec_total a t nQY nQX i \<noteq> 0"
    using assms(2) by (auto simp: com_image_spec)
  then have pos: "0 < spec_total a t nQY nQX i"
    using spec_total_nonneg [OF assms(1), of a nQY nQX i] by simp
  show "0 \<le> fst (com_image a t nQY nQX i)"
    using nz pos spec_sumY_bounds(1) [OF assms(1), of a nQY nQX i]
    by (simp add: com_image_spec)
  show "0 \<le> snd (com_image a t nQY nQX i)"
    using nz pos spec_sumX_bounds(1) [OF assms(1), of a nQY nQX i]
    by (simp add: com_image_spec)
  show "fst (com_image a t nQY nQX i) \<le> real nQY - 1"
    using nz pos spec_sumY_bounds(2) [OF assms(1), of a nQY nQX i]
    by (simp add: com_image_spec pos_divide_le_eq)
  show "snd (com_image a t nQY nQX i) \<le> real nQX - 1"
    using nz pos spec_sumX_bounds(2) [OF assms(1), of a nQY nQX i]
    by (simp add: com_image_spec pos_divide_le_eq)
qed

text \<open>
  Claim C10. For a three-dimensional, C-contiguous stack and a threshold of at least 1,
  every output that is not the sentinel lies within the frame:
  \<open>0 \<le> y \<le> nQY - 1\<close> and \<open>0 \<le> x \<le> nQX - 1\<close>.
\<close>

theorem centroid_within_frame:
  assumes "length (shape a) = 3" and "c_style a" and "1 \<le> sint t" and "i < shape a ! 0"
  shows "\<exists>out. compute_centers_of_mass a t = Inr out \<and>
     (out ! i \<noteq> (- 1, - 1) \<longrightarrow>
        0 \<le> fst (out ! i) \<and> fst (out ! i) \<le> real (shape a ! 1) - 1 \<and>
        0 \<le> snd (out ! i) \<and> snd (out ! i) \<le> real (shape a ! 2) - 1)"
  using assms(1,2,4) com_image_bounds [OF assms(3), of a "shape a ! 1" "shape a ! 2" i]
  by (simp add: compute_centers_of_mass_Inr)

lemma two_frames_result:
  "compute_centers_of_mass two_frames 1 = Inr [(- 1, - 1), (3 / 4, 3 / 4)]"
  by (simp add: compute_centers_of_mass_Inr com_image_spec two_frames_def spec_total_def
      spec_sumY_def spec_sumX_def meets_threshold_def raw_pixel_def ptr_at_def upt2 lt2)

theorem centroid_within_frame_witness:
  "length (shape two_frames) = 3 \<and> c_style two_frames \<and> 1 \<le> sint (1 :: int16)
   \<and> 1 < shape two_frames ! 0
   \<and> (\<exists>out. compute_centers_of_mass two_frames 1 = Inr out \<and> out ! 1 \<noteq> (- 1, - 1)
        \<and> 0 \<le> fst (out ! 1) \<and> fst (out ! 1) \<le> real (shape two_frames ! 1) - 1
        \<and> 0 \<le> snd (out ! 1) \<and> snd (out ! 1) \<le> real (shape two_frames ! 2) - 1)"
  using centroid_within_frame [of two_frames 1 1] two_frames_result
  by (simp add: two_frames_def)

section \<open>Rounding to a double\<close>

lemma pow2_powr: "pow2 e = 2 powr real_of_int e"
  by (simp add: pow2_def powr_real_of_int inverse_eq_divide)

lemma pow2_pos: "0 < pow2 e"
  by (simp add: pow2_def)

lemma round_to_even_of_int: "round_to_even (real_of_int m) = m"
  by (simp add: round_to_even_def)

lemma round_to_even_nonneg: "0 \<le> r \<Longrightarrow> 0 \<le> round_to_even r"
  by (auto simp: round_to_even_def Let_def)

lemma to_double_nonneg: "0 \<le> x \<Longrightarrow> 0 \<le> to_double x"
  using pow2_pos by (simp add: to_double_def Let_def round_to_even_nonneg less_imp_le)

text \<open>Once the binary exponent of \<open>x\<close> is known, so is the last place it is rounded to.\<close>

lemma to_double_eq:
  assumes "pow2 e \<le> \<bar>x\<bar>" and "\<bar>x\<bar> < pow2 (e + 1)"
  shows "to_double x = real_of_int (round_to_even (x / pow2 (e - 52))) * pow2 (e - 52)"
proof -
  have pos: "0 < \<bar>x\<bar>"
    using assms(1) pow2_pos [of e] by linarith
  have "2 powr real_of_int e \<le> \<bar>x\<bar>" "\<bar>x\<bar> < 2 powr (real_of_int e + 1)"
    using assms by (simp_all add: pow2_powr)
  then have "\<lfloor>log 2 \<bar>x\<bar>\<rfloor> = e"
    using pos by (simp add: floor_log_eq_powr_iff)
  then show ?thesis
    using pos by (simp add: to_double_def Let_def)
qed

text \<open>A real that is a multiple of its last place is a double, and is left as it is.\<close>

lemma to_double_exact:
  assumes "pow2 e \<le> \<bar>x\<bar>" and "\<bar>x\<bar> < pow2 (e + 1)"
    and "x = real_of_int m * pow2 (e - 52)"
  shows "to_double x = x"
proof -
  have "x / pow2 (e - 52) = real_of_int m"
    using assms(3) pow2_pos [of "e - 52"] by simp
  then show ?thesis
    using to_double_eq [OF assms(1,2)] assms(3) by (simp add: round_to_even_of_int)
qed

lemma to_double_0: "to_double 0 = 0"
  by (simp add: to_double_def)

lemma to_double_1: "to_double 1 = 1"
proof (rule to_double_exact [where e = 0 and m = "2 ^ 52"])
  show "pow2 0 \<le> \<bar>1::real\<bar>" by (simp add: pow2_def)
  show "\<bar>1::real\<bar> < pow2 (0 + 1)" by (simp add: pow2_def)
  show "(1::real) = real_of_int (2 ^ 52) * pow2 (0 - 52)" by (simp add: pow2_def)
qed

lemma to_double_90: "to_double 90 = 90"
proof (rule to_double_exact [where e = 6 and m = "90 * 2 ^ 46"])
  show "pow2 6 \<le> \<bar>90::real\<bar>" by (simp add: pow2_def)
  show "\<bar>90::real\<bar> < pow2 (6 + 1)" by (simp add: pow2_def)
  show "(90::real) = real_of_int (90 * 2 ^ 46) * pow2 (6 - 52)" by (simp add: pow2_def)
qed

lemma to_double_180: "to_double 180 = 180"
proof (rule to_double_exact [where e = 7 and m = "180 * 2 ^ 45"])
  show "pow2 7 \<le> \<bar>180::real\<bar>" by (simp add: pow2_def)
  show "\<bar>180::real\<bar> < pow2 (7 + 1)" by (simp add: pow2_def)
  show "(180::real) = real_of_int (180 * 2 ^ 45) * pow2 (7 - 52)" by (simp add: pow2_def)
qed

text \<open>
  The two quotients of line 87 for 140 bins and an angle of 270 degrees: \<open>360.0 / 140\<close>
  is rounded up, and 270 divided by it falls just below 105.
\<close>

lemma to_double_width_140: "to_double (360 / 140) = 5790342378047781 / 2 ^ 51"
proof -
  have a: "pow2 1 \<le> \<bar>360 / 140 :: real\<bar>" by (simp add: pow2_def)
  have b: "\<bar>360 / 140 :: real\<bar> < pow2 (1 + 1)" by (simp add: pow2_def)
  have c: "(360 / 140 :: real) / pow2 (1 - 52) = 40532396646334464 / 7"
    by (simp add: pow2_def)
  have d: "round_to_even (40532396646334464 / 7) = 5790342378047781"
    by (simp add: round_to_even_def Let_def)
  show ?thesis
    unfolding to_double_eq [OF a b] c d by (simp add: pow2_def)
qed

lemma to_double_quotient_140:
  "to_double (270 / (5790342378047781 / 2 ^ 51)) = 105 - 1 / 2 ^ 46"
proof -
  have a: "pow2 6 \<le> \<bar>270 / (5790342378047781 / 2 ^ 51) :: real\<bar>"
    by (simp add: pow2_def)
  have b: "\<bar>270 / (5790342378047781 / 2 ^ 51) :: real\<bar> < pow2 (6 + 1)"
    by (simp add: pow2_def)
  have c: "(270 / (5790342378047781 / 2 ^ 51) :: real) / pow2 (6 - 52)
             = 42783207757702742300513733181440 / 5790342378047781"
    by (simp add: pow2_def)
  have d: "round_to_even (42783207757702742300513733181440 / 5790342378047781)
             = 7388718138654719"
    by (simp add: round_to_even_def Let_def)
  show ?thesis
    unfolding to_double_eq [OF a b] c d by (simp add: pow2_def)
qed

section \<open>The bin index\<close>

lemma clamp_range: "lo \<le> hi \<Longrightarrow> lo \<le> clamp v lo hi \<and> clamp v lo hi \<le> hi"
  by (simp add: clamp_def)

lemma binIndicies_range:
  assumes "0 < nPhiBins"
  shows "0 \<le> binIndicies nQY nQX nPhiBins y x"
    and "binIndicies nQY nQX nPhiBins y x \<le> nPhiBins - 1"
  using assms clamp_range [of 0 "nPhiBins - 1"] by (simp_all add: binIndicies_def)

lemma binIndicies_one_bin: "binIndicies nQY nQX 1 y x = 0"
  using binIndicies_range [of 1 nQY nQX y x] by simp

section \<open>The accumulators of the azimuthal integrator\<close>

text \<open>
  One step of the sweep changes one cell of each vector. Written over the list of bins,
  the step adds the pixel's contribution to the bin it belongs to and nothing to the
  others; the two loops then add up the contributions of a row and of a frame.
\<close>

lemma map_upt_update:
  fixes F :: "nat \<Rightarrow> 'a::monoid_add"
  assumes "b0 < n"
  shows "(map F [0..<n])[b0 := map F [0..<n] ! b0 + v]
           = map (\<lambda>b. F b + (if b = b0 then v else 0)) [0..<n]"
  using assms by (auto intro!: nth_equalityI simp: nth_list_update)

lemma crown_pixel_step:
  assumes "0 < nPhiBins"
  shows "crown_pixel a nPhiBins QRange qCal nQY nQX i y
           (map F [0..<nat nPhiBins], map G [0..<nat nPhiBins]) x =
         (map (\<lambda>b. F b + (if contributes a QRange qCal nQY nQX i y x \<and>
                              binIndicies nQY nQX nPhiBins y x = int b
                           then real_of_int (sint (sedData a i y x)) else 0))
            [0..<nat nPhiBins],
          map (\<lambda>b. G b + (if contributes a QRange qCal nQY nQX i y x \<and>
                              binIndicies nQY nQX nPhiBins y x = int b
                           then 1 else 0))
            [0..<nat nPhiBins])"
proof (cases "contributes a QRange qCal nQY nQX i y x")
  case False
  then show ?thesis
    by (auto simp: crown_pixel_def contributes_def)
next
  case True
  define b0 where "b0 = nat (binIndicies nQY nQX nPhiBins y x)"
  have b0: "b0 < nat nPhiBins"
    using binIndicies_range [OF assms, of nQY nQX y x] assms by (simp add: b0_def)
  have eq: "binIndicies nQY nQX nPhiBins y x = int b \<longleftrightarrow> b = b0" for b
    using binIndicies_range(1) [OF assms, of nQY nQX y x] by (auto simp: b0_def)
  have "crown_pixel a nPhiBins QRange qCal nQY nQX i y
           (map F [0..<nat nPhiBins], map G [0..<nat nPhiBins]) x =
        ((map F [0..<nat nPhiBins])[b0 := map F [0..<nat nPhiBins] ! b0
             + real_of_int (sint (sedData a i y x))],
         (map G [0..<nat nPhiBins])[b0 := map G [0..<nat nPhiBins] ! b0 + 1])"
    using True by (simp add: crown_pixel_def contributes_def b0_def Let_def not_less)
  then show ?thesis
    using True by (simp only: map_upt_update [OF b0] eq if_True simp_thms)
qed

lemma crown_pixel_fold:
  assumes "0 < nPhiBins"
  shows "foldl (crown_pixel a nPhiBins QRange qCal nQY nQX i y)
           (map F [0..<nat nPhiBins], map G [0..<nat nPhiBins]) [0..<m] =
         (map (\<lambda>b. F b + (\<Sum>x<m. if contributes a QRange qCal nQY nQX i y x \<and>
                                    binIndicies nQY nQX nPhiBins y x = int b
                                 then real_of_int (sint (sedData a i y x)) else 0))
            [0..<nat nPhiBins],
          map (\<lambda>b. G b + (\<Sum>x<m. if contributes a QRange qCal nQY nQX i y x \<and>
                                    binIndicies nQY nQX nPhiBins y x = int b
                                 then 1 else 0))
            [0..<nat nPhiBins])"
proof (induction m)
  case 0
  show ?case by simp
next
  case (Suc m)
  show ?case
    by (simp add: Suc.IH crown_pixel_step [OF assms] add.assoc)
qed

lemma crown_row_fold:
  assumes "0 < nPhiBins"
  shows "foldl (crown_row a nPhiBins QRange qCal nQY nQX i)
           (map F [0..<nat nPhiBins], map G [0..<nat nPhiBins]) [0..<m] =
         (map (\<lambda>b. F b + (\<Sum>y<m. \<Sum>x<nQX. if contributes a QRange qCal nQY nQX i y x \<and>
                                    binIndicies nQY nQX nPhiBins y x = int b
                                 then real_of_int (sint (sedData a i y x)) else 0))
            [0..<nat nPhiBins],
          map (\<lambda>b. G b + (\<Sum>y<m. \<Sum>x<nQX. if contributes a QRange qCal nQY nQX i y x \<and>
                                    binIndicies nQY nQX nPhiBins y x = int b
                                 then 1 else 0))
            [0..<nat nPhiBins])"
proof (induction m)
  case 0
  show ?case by simp
next
  case (Suc m)
  have "foldl (crown_row a nPhiBins QRange qCal nQY nQX i)
           (map F [0..<nat nPhiBins], map G [0..<nat nPhiBins]) [0..<Suc m] =
        crown_row a nPhiBins QRange qCal nQY nQX i
          (foldl (crown_row a nPhiBins QRange qCal nQY nQX i)
             (map F [0..<nat nPhiBins], map G [0..<nat nPhiBins]) [0..<m]) m"
    by simp
  also have "\<dots> = foldl (crown_pixel a nPhiBins QRange qCal nQY nQX i m)
      (map (\<lambda>b. F b + (\<Sum>y<m. \<Sum>x<nQX. if contributes a QRange qCal nQY nQX i y x \<and>
                                    binIndicies nQY nQX nPhiBins y x = int b
                                 then real_of_int (sint (sedData a i y x)) else 0))
            [0..<nat nPhiBins],
       map (\<lambda>b. G b + (\<Sum>y<m. \<Sum>x<nQX. if contributes a QRange qCal nQY nQX i y x \<and>
                                    binIndicies nQY nQX nPhiBins y x = int b
                                 then 1 else 0))
            [0..<nat nPhiBins]) [0..<nQX]"
    unfolding Suc.IH by (simp only: crown_row_def)
  finally show ?case
    by (simp add: crown_pixel_fold [OF assms] add.assoc)
qed

lemma replicate_as_map: "replicate n c = map (\<lambda>_. c) [0..<n]"
  by (simp add: map_replicate_const)

lemma crown_sums_nested:
  assumes "0 < nPhiBins"
  shows "crown_sums a nPhiBins QRange qCal nQY nQX i =
         (map (\<lambda>b. \<Sum>y<nQY. \<Sum>x<nQX. if contributes a QRange qCal nQY nQX i y x \<and>
                                    binIndicies nQY nQX nPhiBins y x = int b
                                 then real_of_int (sint (sedData a i y x)) else 0)
            [0..<nat nPhiBins],
          map (\<lambda>b. \<Sum>y<nQY. \<Sum>x<nQX. if contributes a QRange qCal nQY nQX i y x \<and>
                                    binIndicies nQY nQX nPhiBins y x = int b
                                 then 1 else 0)
            [0..<nat nPhiBins])"
  unfolding crown_sums_def replicate_as_map
  by (simp add: crown_row_fold [OF assms])

text \<open>A sum over the frame, pixel by pixel, is a sum over the set of the pixels kept.\<close>

lemma nested_sum_as_set:
  fixes f :: "nat \<Rightarrow> nat \<Rightarrow> 'a::comm_monoid_add"
  shows "(\<Sum>y<m. \<Sum>x<n. if P y x then f y x else 0)
           = (\<Sum>(y, x)\<in>{(y, x). y < m \<and> x < n \<and> P y x}. f y x)"
proof -
  have set_eq: "{(y, x). y < m \<and> x < n \<and> P y x}
                  = {p \<in> {..<m} \<times> {..<n}. P (fst p) (snd p)}"
    by auto
  have "(\<Sum>y<m. \<Sum>x<n. if P y x then f y x else 0)
          = (\<Sum>p\<in>{..<m} \<times> {..<n}. if P (fst p) (snd p) then f (fst p) (snd p) else 0)"
    by (simp add: sum.cartesian_product case_prod_unfold)
  also have "\<dots> = (\<Sum>p\<in>{p \<in> {..<m} \<times> {..<n}. P (fst p) (snd p)}. f (fst p) (snd p))"
    by (simp add: sum.inter_filter)
  finally show ?thesis
    unfolding set_eq by (simp add: case_prod_unfold)
qed

lemma nested_count_as_card:
  fixes m n :: nat
  shows "(\<Sum>y<m. \<Sum>x<n. if P y x then 1 else 0)
     = int (card {(y, x). y < m \<and> x < n \<and> P y x})"
proof -
  have "(\<Sum>y<m. \<Sum>x<n. if P y x then (1::int) else 0)
          = (\<Sum>(y, x)\<in>{(y, x). y < m \<and> x < n \<and> P y x}. 1)"
    using nested_sum_as_set [where m = m and n = n and P = P and f = "\<lambda>_ _. 1::int"] by simp
  then show ?thesis
    by (simp add: case_prod_beta)
qed

lemma spec_bin_sum_nested:
  "spec_bin_sum a nPhiBins QRange qCal nQY nQX i b =
     (\<Sum>y<nQY. \<Sum>x<nQX. if contributes a QRange qCal nQY nQX i y x \<and>
                             binIndicies nQY nQX nPhiBins y x = int b
                          then real_of_int (sint (sedData a i y x)) else 0)"
  by (simp add: spec_bin_sum_def bin_pixels_def nested_sum_as_set)

lemma spec_bin_count_nested:
  "int (spec_bin_count a nPhiBins QRange qCal nQY nQX i b) =
     (\<Sum>y<nQY. \<Sum>x<nQX. if contributes a QRange qCal nQY nQX i y x \<and>
                             binIndicies nQY nQX nPhiBins y x = int b
                          then 1 else 0)"
  by (simp add: spec_bin_count_def bin_pixels_def nested_count_as_card)

lemma crown_sums_spec:
  assumes "0 < nPhiBins"
  shows "crown_sums a nPhiBins QRange qCal nQY nQX i =
         (map (spec_bin_sum a nPhiBins QRange qCal nQY nQX i) [0..<nat nPhiBins],
          map (\<lambda>b. int (spec_bin_count a nPhiBins QRange qCal nQY nQX i b))
            [0..<nat nPhiBins])"
  by (simp add: crown_sums_nested [OF assms] spec_bin_sum_nested spec_bin_count_nested)

lemma crown_image_spec:
  assumes "0 < nPhiBins"
  shows "crown_image a nPhiBins QRange qCal nQY nQX i =
         map (\<lambda>b. if 0 < spec_bin_count a nPhiBins QRange qCal nQY nQX i b
                  then spec_bin_sum a nPhiBins QRange qCal nQY nQX i b
                         / real (spec_bin_count a nPhiBins QRange qCal nQY nQX i b)
                  else 0)
           [0..<nat nPhiBins]"
  by (simp add: crown_image_def crown_sums_spec [OF assms])

lemma bin_choice:
  assumes "0 < nPhiBins"
  shows "(\<Sum>b<nat nPhiBins. if c \<and> binIndicies nQY nQX nPhiBins y x = int b
                            then (1::int) else 0)
           = (if c then 1 else 0)"
proof -
  define b0 where "b0 = nat (binIndicies nQY nQX nPhiBins y x)"
  have b0: "b0 < nat nPhiBins"
    using binIndicies_range [OF assms, of nQY nQX y x] assms by (simp add: b0_def)
  have eq: "binIndicies nQY nQX nPhiBins y x = int b \<longleftrightarrow> b = b0" for b
    using binIndicies_range(1) [OF assms, of nQY nQX y x] by (auto simp: b0_def)
  have "(\<Sum>b<nat nPhiBins. if c \<and> binIndicies nQY nQX nPhiBins y x = int b
                            then (1::int) else 0)
        = (\<Sum>b<nat nPhiBins. if b = b0 then (if c then 1 else 0) else 0)"
    by (intro sum.cong refl) (simp add: eq)
  also have "\<dots> = (if c then 1 else 0)"
    using b0 by (simp add: sum.delta)
  finally show ?thesis .
qed

lemma total_count:
  assumes "0 < nPhiBins"
  shows "(\<Sum>b<nat nPhiBins. int (spec_bin_count a nPhiBins QRange qCal nQY nQX i b))
           = int (card {(y, x). y < nQY \<and> x < nQX \<and> contributes a QRange qCal nQY nQX i y x})"
proof -
  have "(\<Sum>b<nat nPhiBins. int (spec_bin_count a nPhiBins QRange qCal nQY nQX i b))
        = (\<Sum>b<nat nPhiBins. \<Sum>y<nQY. \<Sum>x<nQX.
             if contributes a QRange qCal nQY nQX i y x \<and>
                binIndicies nQY nQX nPhiBins y x = int b then 1 else 0)"
    by (simp add: spec_bin_count_nested)
  also have "\<dots> = (\<Sum>y<nQY. \<Sum>b<nat nPhiBins. \<Sum>x<nQX.
             if contributes a QRange qCal nQY nQX i y x \<and>
                binIndicies nQY nQX nPhiBins y x = int b then 1 else 0)"
    by (rule sum.swap)
  also have "\<dots> = (\<Sum>y<nQY. \<Sum>x<nQX. \<Sum>b<nat nPhiBins.
             if contributes a QRange qCal nQY nQX i y x \<and>
                binIndicies nQY nQX nPhiBins y x = int b then 1 else 0)"
    by (intro sum.cong refl sum.swap)
  also have "\<dots> = (\<Sum>y<nQY. \<Sum>x<nQX.
             if contributes a QRange qCal nQY nQX i y x then 1 else 0)"
    by (simp only: bin_choice [OF assms])
  finally show ?thesis
    by (simp add: nested_count_as_card)
qed

lemma sum_list_upt: "sum_list (map f [0..<n]) = (\<Sum>b<n. f b)"
  by (simp add: interv_sum_list_conv_sum_set_nat atLeast0LessThan)

lemma compute_crown_integral_Inr:
  assumes "length (shape a) = 3" and "0 < nPhiBins"
  shows "compute_crown_integral a nPhiBins QRange qCal =
           Inr (map (crown_image a nPhiBins QRange qCal (shape a ! 1) (shape a ! 2))
                  [0..<shape a ! 0])"
  using assms by (simp add: compute_crown_integral_def Let_def)

text \<open>
  Claim C1. For a three-dimensional stack and \<open>nPhiBins > 0\<close>, \<open>compute_crown_integral\<close>
  returns one row per image and one value per bin: \<open>sum / count\<close> for a bin with
  \<open>count > 0\<close> and \<open>0\<close> for a bin with \<open>count = 0\<close>. For every image the accumulators
  hold, after the sweep, the sum and the number of exactly the samples of that image
  with \<open>valid[y][x]\<close> and a value \<open>\<ge> 0\<close> whose bin index is the bin (nothing is carried
  over from another image), and the counts of all bins add up to the number of pixels of
  the image with \<open>valid[y][x]\<close> and a value \<open>\<ge> 0\<close>.
\<close>

theorem crown_integral_refines_spec:
  assumes "length (shape a) = 3" and "0 < nPhiBins"
  shows "compute_crown_integral a nPhiBins QRange qCal =
           Inr (map (\<lambda>i. map (\<lambda>b.
                  if 0 < spec_bin_count a nPhiBins QRange qCal (shape a ! 1) (shape a ! 2) i b
                  then spec_bin_sum a nPhiBins QRange qCal (shape a ! 1) (shape a ! 2) i b
                     / real (spec_bin_count a nPhiBins QRange qCal (shape a ! 1) (shape a ! 2) i b)
                  else 0) [0..<nat nPhiBins]) [0..<shape a ! 0])
     \<and> (\<forall>i. crown_sums a nPhiBins QRange qCal (shape a ! 1) (shape a ! 2) i =
           (map (spec_bin_sum a nPhiBins QRange qCal (shape a ! 1) (shape a ! 2) i)
              [0..<nat nPhiBins],
            map (\<lambda>b. int (spec_bin_count a nPhiBins QRange qCal (shape a ! 1) (shape a ! 2) i b))
              [0..<nat nPhiBins])
         \<and> sum_list (snd (crown_sums a nPhiBins QRange qCal (shape a ! 1) (shape a ! 2) i))
             = int (card {(y, x). y < shape a ! 1 \<and> x < shape a ! 2 \<and>
                     validPixels (shape a ! 1) (shape a ! 2) QRange qCal y x \<and>
                     0 \<le> sint (sedData a i y x)}))"
proof -
  have "compute_crown_integral a nPhiBins QRange qCal =
           Inr (map (\<lambda>i. map (\<lambda>b.
                  if 0 < spec_bin_count a nPhiBins QRange qCal (shape a ! 1) (shape a ! 2) i b
                  then spec_bin_sum a nPhiBins QRange qCal (shape a ! 1) (shape a ! 2) i b
                     / real (spec_bin_count a nPhiBins QRange qCal (shape a ! 1) (shape a ! 2) i b)
                  else 0) [0..<nat nPhiBins]) [0..<shape a ! 0])"
    unfolding compute_crown_integral_Inr [OF assms]
    by (simp add: crown_image_spec [OF assms(2)] cong: map_cong)
  moreover have "sum_list (snd (crown_sums a nPhiBins QRange qCal (shape a ! 1) (shape a ! 2) i))
             = int (card {(y, x). y < shape a ! 1 \<and> x < shape a ! 2 \<and>
                     validPixels (shape a ! 1) (shape a ! 2) QRange qCal y x \<and>
                     0 \<le> sint (sedData a i y x)})" for i
    using total_count [OF assms(2), of a QRange qCal "shape a ! 1" "shape a ! 2" i]
    by (simp add: crown_sums_spec [OF assms(2)] sum_list_upt contributes_def)
  ultimately show ?thesis
    by (simp add: crown_sums_spec [OF assms(2)])
qed

lemma replicate2: "replicate 2 c = [c, c]"
  by (simp add: numeral_2_eq_2)

lemma pair_frames_shape:
  "length (shape pair_frames) = 3" "shape pair_frames ! 0 = 2"
  "shape pair_frames ! 1 = 1" "shape pair_frames ! 2 = 2"
  by (simp_all add: pair_frames_def)

lemma pair_frames_sums:
  "crown_sums pair_frames 2 (0, 1) 1 1 2 0 = ([7, 5], [1, 1])"
  "crown_sums pair_frames 2 (0, 1) 1 1 2 1 = ([4, 0], [1, 0])"
  by (simp_all add: crown_sums_def crown_row_def replicate2
    crown_pixel_def validPixels_def pixelsQ_def binIndicies_def pixelsPhi_def atan2_def
    beamCenter_def M_PI_def cast_int_def clamp_def double_div_def to_double_0 to_double_1
    to_double_180 sedData_def element_at_def pair_frames_def upt1 upt2)

lemma pair_frames_result:
  "compute_crown_integral pair_frames 2 (0, 1) 1 = Inr [[7, 5], [4, 0]]"
  using pair_frames_sums pair_frames_shape
  by (simp add: compute_crown_integral_def crown_image_def upt2)

theorem crown_integral_refines_spec_witness:
  "length (shape pair_frames) = 3
   \<and> compute_crown_integral pair_frames 2 (0, 1) 1 = Inr [[7, 5], [4, 0]]
   \<and> spec_bin_sum pair_frames 2 (0, 1) 1 1 2 0 0 = 7
   \<and> spec_bin_sum pair_frames 2 (0, 1) 1 1 2 0 1 = 5
   \<and> spec_bin_count pair_frames 2 (0, 1) 1 1 2 1 0 = 1
   \<and> spec_bin_count pair_frames 2 (0, 1) 1 1 2 1 1 = 0
   \<and> card {(y, x). y < 1 \<and> x < 2 \<and> validPixels 1 2 (0, 1) 1 y x \<and>
                     0 \<le> sint (sedData pair_frames 1 y x)} = 1"
proof -
  have pos: "(0::int) < 2" by simp
  note spec = crown_integral_refines_spec [OF pair_frames_shape(1) pos, of "(0, 1)" 1,
      unfolded pair_frames_shape]
  from spec have sums:
    "crown_sums pair_frames 2 (0, 1) 1 1 2 i =
       (map (spec_bin_sum pair_frames 2 (0, 1) 1 1 2 i) [0..<nat 2],
        map (\<lambda>b. int (spec_bin_count pair_frames 2 (0, 1) 1 1 2 i b)) [0..<nat 2])"
    and total: "sum_list (snd (crown_sums pair_frames 2 (0, 1) 1 1 2 i))
       = int (card {(y, x). y < 1 \<and> x < 2 \<and> validPixels 1 2 (0, 1) 1 y x \<and>
                     0 \<le> sint (sedData pair_frames i y x)})" for i
    by blast+
  show ?thesis
    using sums [of 0] sums [of 1] total [of 1] pair_frames_sums pair_frames_result
      pair_frames_shape
    by (simp add: upt2)
qed

section \<open>Polar geometry\<close>

text \<open>The angle of \<open>atan2\<close> lies in \<open>(-\<pi>, \<pi>]\<close>, so the wrapped angle lies in \<open>[0, 360)\<close>.\<close>

lemma atan2_bounds: "- pi < atan2 y x \<and> atan2 y x \<le> pi"
proof -
  have lb: "- (pi / 2) < arctan (y / x)" and ub: "arctan (y / x) < pi / 2"
    by (rule arctan_lbound, rule arctan_ubound)
  consider "0 < x" | "x < 0" "0 \<le> y" | "x < 0" "y < 0" | "x = 0" by linarith
  then show ?thesis
  proof cases
    case 1
    then have "atan2 y x = arctan (y / x)" by (simp add: atan2_def)
    then show ?thesis using lb ub pi_gt_zero by linarith
  next
    case 2
    then have "y / x \<le> 0" by (simp add: divide_nonneg_neg)
    then have "arctan (y / x) \<le> 0" by (simp add: arctan_le_zero_iff)
    moreover have "atan2 y x = arctan (y / x) + pi" using 2 by (simp add: atan2_def)
    ultimately show ?thesis using lb pi_gt_zero by linarith
  next
    case 3
    then have "0 < y / x" by (simp add: divide_neg_neg)
    then have "0 < arctan (y / x)" by (simp add: zero_less_arctan_iff)
    moreover have "atan2 y x = arctan (y / x) - pi" using 3 by (simp add: atan2_def)
    ultimately show ?thesis using ub pi_gt_zero by linarith
  next
    case 4
    then have "atan2 y x = pi / 2 \<or> atan2 y x = - (pi / 2) \<or> atan2 y x = 0"
      by (simp add: atan2_def)
    then show ?thesis using pi_gt_zero by linarith
  qed
qed

lemma pixelsPhi_range: "0 \<le> pixelsPhi nQY nQX y x \<and> pixelsPhi nQY nQX y x < 360"
proof -
  define t where "t = atan2 (real_of_int (int y - beamCenter nQY))
                        (real_of_int (int x - beamCenter nQX))"
  define phi where "phi = t * 180 / M_PI"
  have t: "- pi < t" "t \<le> pi"
    using atan2_bounds [of "real_of_int (int y - beamCenter nQY)"
        "real_of_int (int x - beamCenter nQX)"]
    by (simp_all add: t_def)
  have "- 180 < phi" "phi \<le> 180"
    using t pi_gt_zero by (simp_all add: phi_def M_PI_def field_simps)
  moreover have "pixelsPhi nQY nQX y x = (if phi < 0 then phi + 360 else phi)"
    by (simp add: pixelsPhi_def Let_def phi_def t_def)
  ultimately show ?thesis by auto
qed

lemma cast_int_nonneg: "0 \<le> d \<Longrightarrow> cast_int d = \<lfloor>d\<rfloor>"
  by (simp add: cast_int_def)

lemma clamp_max_min: "lo \<le> hi \<Longrightarrow> clamp v lo hi = max lo (min hi v)"
  by (simp add: clamp_def max_def min_def)

text \<open>
  The angle and the rounded bin width are not negative, so neither is their rounded
  quotient, and the cast of line 87 rounds it down.
\<close>

lemma bin_quotient_nonneg:
  assumes "0 < nPhiBins"
  shows "0 \<le> double_div (pixelsPhi nQY nQX y x) (double_div 360 (real_of_int nPhiBins))"
proof -
  have "0 \<le> double_div 360 (real_of_int nPhiBins)"
    using assms by (simp add: double_div_def to_double_nonneg)
  then have "0 \<le> pixelsPhi nQY nQX y x / double_div 360 (real_of_int nPhiBins)"
    using pixelsPhi_range [of nQY nQX y x] by simp
  then show ?thesis
    by (simp add: double_div_def to_double_nonneg)
qed

lemma binIndicies_rounded_floor:
  assumes "0 < nPhiBins"
  shows "binIndicies nQY nQX nPhiBins y x =
           max 0 (min (nPhiBins - 1)
             \<lfloor>double_div (pixelsPhi nQY nQX y x) (double_div 360 (real_of_int nPhiBins))\<rfloor>)"
  using assms bin_quotient_nonneg [OF assms, of nQY nQX y x]
  by (simp add: binIndicies_def cast_int_nonneg clamp_max_min)

lemma binIndicies_four_bins_90:
  assumes "pixelsPhi nQY nQX y x = 90"
  shows "binIndicies nQY nQX 4 y x = 1"
  using assms
  by (simp add: binIndicies_def double_div_def to_double_90 to_double_1 cast_int_def clamp_def)

text \<open>
  Claim C7, as amended. With \<open>nPhiBins > 0\<close>, for every valid pixel \<open>binIndex[y][x]\<close> is
  \<open>clamp(floor(q), 0, nPhiBins - 1)\<close>, where \<open>q\<close> is the quotient
  \<open>angleDeg[y][x] / (360 / nPhiBins)\<close> as the code computes it in doubles, each of the
  two divisions rounded to the nearest double; so every valid pixel maps to exactly one
  bin in \<open>[0, nPhiBins - 1]\<close>. With \<open>nPhiBins = 4\<close> a pixel whose angle is exactly 90
  degrees lands in bin 1, not bin 2.
\<close>

theorem bin_index_is_clamped_rounded_quotient:
  assumes "0 < nPhiBins" and "validPixels nQY nQX QRange qCal y x"
  shows "binIndicies nQY nQX nPhiBins y x =
           max 0 (min (nPhiBins - 1)
             \<lfloor>double_div (pixelsPhi nQY nQX y x) (double_div 360 (real_of_int nPhiBins))\<rfloor>)
     \<and> 0 \<le> binIndicies nQY nQX nPhiBins y x
     \<and> binIndicies nQY nQX nPhiBins y x \<le> nPhiBins - 1
     \<and> (pixelsPhi nQY nQX y x = 90 \<longrightarrow> binIndicies nQY nQX 4 y x = 1)"
  using binIndicies_rounded_floor [OF assms(1)] binIndicies_range [OF assms(1)]
    binIndicies_four_bins_90
  by blast

text \<open>
  The claim as first stated, with the exact quotient, fails at other bin boundaries.
  With 140 bins the pixel \<open>(0, 1)\<close> of a 3 by 3 frame is valid and lies at exactly 270
  degrees, the lower boundary \<open>105 \<cdot> (360 / 140)\<close> of bin 105, which is also what the
  specification's formula gives; the code's rounded quotient is \<open>105 - 2^-46\<close> and the
  pixel lands in bin 104.
\<close>

lemma pixelsPhi_270: "pixelsPhi 3 3 0 1 = 270"
  by (simp add: pixelsPhi_def atan2_def beamCenter_def M_PI_def)

theorem boundary_angle_falls_one_bin_lower:
  "validPixels 3 3 (0, 2) 1 0 1
   \<and> pixelsPhi 3 3 0 1 = 270
   \<and> (270 :: real) = real_of_int 105 * (360 / real_of_int 140)
   \<and> spec_binIndex 3 3 140 0 1 = 105
   \<and> binIndicies 3 3 140 0 1 = 104"
proof -
  have "validPixels 3 3 (0, 2) 1 0 1"
    by (simp add: validPixels_def pixelsQ_def beamCenter_def)
  moreover have "spec_binIndex 3 3 140 0 1 = 105"
    using pixelsPhi_270 by (simp add: spec_binIndex_def)
  moreover have "binIndicies 3 3 140 0 1 = 104"
  proof -
    have width: "to_double (360 / real_of_int 140) = 5790342378047781 / 2 ^ 51"
      by (simp only: of_int_numeral to_double_width_140)
    have quotient: "double_div (pixelsPhi 3 3 0 1) (double_div 360 (real_of_int 140))
                      = 105 - 1 / 2 ^ 46"
      by (simp only: double_div_def width pixelsPhi_270 to_double_quotient_140)
    have "binIndicies 3 3 140 0 1 = clamp (cast_int (105 - 1 / 2 ^ 46)) 0 (140 - 1)"
      by (simp only: binIndicies_def quotient)
    also have "\<dots> = 104"
      by (simp add: cast_int_def clamp_def)
    finally show ?thesis .
  qed
  ultimately show ?thesis
    using pixelsPhi_270 by simp
qed

theorem bin_index_is_clamped_rounded_quotient_witness:
  "(0::int) < 4 \<and> validPixels 4 4 (0, 10) 1 3 2 \<and> pixelsPhi 4 4 3 2 = 90
   \<and> binIndicies 4 4 4 3 2 = 1
   \<and> \<lfloor>double_div (pixelsPhi 4 4 3 2) (double_div 360 (real_of_int 4))\<rfloor> = 1"
proof -
  have v: "validPixels 4 4 (0, 10) 1 3 2"
    by (simp add: validPixels_def pixelsQ_def beamCenter_def)
  have p: "pixelsPhi 4 4 3 2 = 90"
    by (simp add: pixelsPhi_def atan2_def beamCenter_def M_PI_def)
  have q: "\<lfloor>double_div (pixelsPhi 4 4 3 2) (double_div 360 (real_of_int 4))\<rfloor> = 1"
    by (simp add: p double_div_def to_double_90 to_double_1)
  show ?thesis
    using bin_index_is_clamped_rounded_quotient [of 4 4 4 "(0, 10)" 1 3 2] v p q by simp
qed

text \<open>
  Claim C8. For every pixel, \<open>angleDeg[y][x]\<close> is \<open>atan2(y - cy, x - cx) \<cdot> 180 / \<pi>\<close>
  with 360 added when negative, where \<open>(cy, cx) = (nQY div 2, nQX div 2)\<close>; it lies in
  \<open>[0, 360)\<close>. For \<open>nQY = nQX = 4\<close> the beam centre is \<open>(2, 2)\<close>, the pixel \<open>(2, 3)\<close>
  has radius \<open>1 \<cdot> qCalibration\<close> and angle 0, and the pixel \<open>(2, 1)\<close>, at 180
  degrees, keeps the angle 180.
\<close>

theorem polar_angle_formula_and_range:
  "pixelsPhi nQY nQX y x =
     (let a = atan2 (real_of_int (int y - int (nQY div 2)))
                    (real_of_int (int x - int (nQX div 2))) * 180 / pi
      in if a < 0 then a + 360 else a)
   \<and> 0 \<le> pixelsPhi nQY nQX y x \<and> pixelsPhi nQY nQX y x < 360
   \<and> beamCenter 4 = 2
   \<and> pixelsQ 4 4 qCal 2 3 = 1 * qCal
   \<and> pixelsPhi 4 4 2 3 = 0
   \<and> pixelsPhi 4 4 2 1 = 180"
proof -
  have "pixelsPhi 4 4 2 3 = 0" "pixelsPhi 4 4 2 1 = 180"
    by (simp_all add: pixelsPhi_def atan2_def beamCenter_def M_PI_def)
  moreover have "pixelsQ 4 4 qCal 2 3 = 1 * qCal"
    by (simp add: pixelsQ_def beamCenter_def)
  moreover have "beamCenter 4 = 2"
    by (simp add: beamCenter_def)
  moreover have "pixelsPhi nQY nQX y x =
     (let a = atan2 (real_of_int (int y - int (nQY div 2)))
                    (real_of_int (int x - int (nQX div 2))) * 180 / pi
      in if a < 0 then a + 360 else a)"
    by (simp add: pixelsPhi_def beamCenter_def M_PI_def)
  ultimately show ?thesis
    using pixelsPhi_range [of nQY nQX y x] by blast
qed

section \<open>The radial mask\<close>

lemma upt3: "[0..<3] = [0, 1, 2]"
  by (simp add: upt_rec)

lemma pixelsQ_zero_iff:
  assumes "qCal \<noteq> 0"
  shows "pixelsQ nQY nQX qCal y x = 0 \<longleftrightarrow> (int y = beamCenter nQY \<and> int x = beamCenter nQX)"
proof -
  define QY where "QY = int y - beamCenter nQY"
  define QX where "QX = int x - beamCenter nQX"
  have "pixelsQ nQY nQX qCal y x = sqrt (real_of_int (QY * QY + QX * QX)) * qCal"
    by (simp add: pixelsQ_def QY_def QX_def Let_def)
  moreover have "0 \<le> QY * QY" "0 \<le> QX * QX" by simp_all
  moreover have "QY * QY + QX * QX = 0 \<longleftrightarrow> QY = 0 \<and> QX = 0"
    by (rule sum_squares_eq_zero_iff)
  ultimately have "pixelsQ nQY nQX qCal y x = 0 \<longleftrightarrow> QY = 0 \<and> QX = 0"
    using assms by (simp flip: of_int_add of_int_mult)
  then show ?thesis by (simp add: QY_def QX_def)
qed

lemma validPixels_zero_range:
  assumes "qCal \<noteq> 0"
  shows "validPixels nQY nQX (0, 0) qCal y x
           \<longleftrightarrow> (int y = beamCenter nQY \<and> int x = beamCenter nQX)"
proof -
  have "validPixels nQY nQX (0, 0) qCal y x \<longleftrightarrow> pixelsQ nQY nQX qCal y x = 0"
    by (auto simp: validPixels_def)
  then show ?thesis by (simp add: pixelsQ_zero_iff [OF assms])
qed

text \<open>
  In a frame of at most 65535 rows and columns every pixel is within 32767 of the beam
  centre on each axis, and \<open>QY*QY + QX*QX\<close> of line 76 stays within the range of a
  32-bit \<open>int\<close>: there the source computes the sum the model computes.
\<close>

lemma offset_bound:
  assumes "n \<le> 65535" and "k < n"
  shows "\<bar>int k - beamCenter n\<bar> \<le> 32767"
  using assms by (simp add: beamCenter_def)

lemma square_bound:
  fixes q :: int
  assumes "\<bar>q\<bar> \<le> 32767"
  shows "q * q \<le> 1073676289"
proof -
  have "\<bar>q\<bar> * \<bar>q\<bar> \<le> 32767 * 32767"
    using assms by (intro mult_mono) simp_all
  then show ?thesis by (simp add: abs_mult_self_eq)
qed

lemma radius_int_in_range:
  assumes "nQY \<le> 65535" and "nQX \<le> 65535" and "y < nQY" and "x < nQX"
  shows "(int y - beamCenter nQY) * (int y - beamCenter nQY)
           + (int x - beamCenter nQX) * (int x - beamCenter nQX) \<le> 2147483647"
  using square_bound [OF offset_bound [OF assms(1,3)]]
    square_bound [OF offset_bound [OF assms(2,4)]]
  by linarith

lemma crown_pixel_skips_invalid:
  assumes "\<not> validPixels nQY nQX QRange qCal y x"
  shows "crown_pixel a nPhiBins QRange qCal nQY nQX i y acc x = acc"
  using assms by (cases acc) (simp add: crown_pixel_def)

text \<open>
  Claim C9, as amended. For every frame of at most 65535 rows and 65535 columns, where
  the \<open>int\<close> expression \<open>QY*QY + QX*QX\<close> of the source cannot overflow, and every finite
  \<open>qCalibration\<close> other than 0: when \<open>QRange = [0, 0]\<close> a pixel of the frame is valid
  if and only if it is the beam centre \<open>(nQY div 2, nQX div 2)\<close>; the sweep leaves the
  accumulators as they are at every other pixel, and no other pixel belongs to any bin
  of any image.
\<close>

theorem zero_range_keeps_only_beam_centre:
  assumes "qCal \<noteq> 0" and "nQY \<le> 65535" and "nQX \<le> 65535" and "y < nQY" and "x < nQX"
  shows "(int y - beamCenter nQY) * (int y - beamCenter nQY)
           + (int x - beamCenter nQX) * (int x - beamCenter nQX) \<le> 2147483647
     \<and> (validPixels nQY nQX (0, 0) qCal y x \<longleftrightarrow> (y = nQY div 2 \<and> x = nQX div 2))
     \<and> ((y, x) \<noteq> (nQY div 2, nQX div 2)
          \<longrightarrow> crown_pixel a nPhiBins (0, 0) qCal nQY nQX i y acc x = acc)
     \<and> bin_pixels a nPhiBins (0, 0) qCal nQY nQX i b \<subseteq> {(nQY div 2, nQX div 2)}"
proof -
  have iff: "validPixels nQY nQX (0, 0) qCal y x \<longleftrightarrow> (y = nQY div 2 \<and> x = nQX div 2)"
    for y x
    by (simp add: validPixels_zero_range [OF assms(1)] beamCenter_def)
  have "bin_pixels a nPhiBins (0, 0) qCal nQY nQX i b \<subseteq> {(nQY div 2, nQX div 2)}"
    by (auto simp: bin_pixels_def contributes_def iff)
  moreover have "crown_pixel a nPhiBins (0, 0) qCal nQY nQX i y acc x = acc"
    if "(y, x) \<noteq> (nQY div 2, nQX div 2)"
    using that by (intro crown_pixel_skips_invalid) (simp add: iff)
  ultimately show ?thesis
    using radius_int_in_range [OF assms(2,3,4,5)] iff by blast
qed

text \<open>
  The claim as first stated fails for \<open>qCalibration = 0\<close>: every radius is then 0, and
  in a 2 by 2 frame the pixel \<open>(0, 0)\<close>, which is not the beam centre \<open>(1, 1)\<close>, is valid.
\<close>

theorem zero_calibration_keeps_every_pixel:
  "validPixels 2 2 (0, 0) 0 0 0 \<and> (0::nat) \<noteq> 2 div 2"
  by (simp add: validPixels_def pixelsQ_def)

lemma nine_pixels_shape:
  "length (shape nine_pixels) = 3" "shape nine_pixels ! 0 = 1"
  "shape nine_pixels ! 1 = 3" "shape nine_pixels ! 2 = 3"
  by (simp_all add: nine_pixels_def)

lemma nine_pixels_sums:
  "crown_sums nine_pixels 1 (0, 0) 1 3 3 0 = ([5], [1])"
  by (simp add: crown_sums_def crown_row_def crown_pixel_def validPixels_def pixelsQ_def
      beamCenter_def binIndicies_one_bin sedData_def element_at_def nine_pixels_def upt3)

lemma nine_pixels_result:
  "compute_crown_integral nine_pixels 1 (0, 0) 1 = Inr [[5]]"
  using nine_pixels_sums nine_pixels_shape
  by (simp add: compute_crown_integral_def crown_image_def)

theorem zero_range_keeps_only_beam_centre_witness:
  "(1::real) \<noteq> 0 \<and> (3::nat) \<le> 65535
   \<and> validPixels 3 3 (0, 0) 1 1 1 \<and> \<not> validPixels 3 3 (0, 0) 1 0 2
   \<and> crown_pixel nine_pixels 1 (0, 0) 1 3 3 0 0 ([0], [0]) 2 = ([0], [0])
   \<and> bin_pixels nine_pixels 1 (0, 0) 1 3 3 0 0 \<subseteq> {(1, 1)}
   \<and> compute_crown_integral nine_pixels 1 (0, 0) 1 = Inr [[5]]"
  using zero_range_keeps_only_beam_centre [of 1 3 3 1 1 nine_pixels 1 0 "([0], [0])" 0]
    zero_range_keeps_only_beam_centre [of 1 3 3 0 2 nine_pixels 1 0 "([0], [0])" 0] nine_pixels_result
  by simp

section \<open>What the integrator validates\<close>

text \<open>
  An inverted radial range leaves no valid pixel. A frame without a valid pixel has
  empty bins, and the geometry pass never calls \<open>std::clamp\<close> for it.
\<close>

lemma inverted_range_invalid:
  assumes "snd QRange < fst QRange"
  shows "\<not> validPixels nQY nQX QRange qCal y x"
  using assms by (auto simp: validPixels_def)

lemma inverted_range_no_valid_pixel:
  assumes "snd QRange < fst QRange"
  shows "\<not> has_valid_pixel nQY nQX QRange qCal"
  using inverted_range_invalid [OF assms] by (simp add: has_valid_pixel_def)

lemma no_valid_pixel_empty_bins:
  assumes "\<not> has_valid_pixel nQY nQX QRange qCal"
  shows "bin_pixels a nPhiBins QRange qCal nQY nQX i b = {}"
  using assms by (auto simp: bin_pixels_def contributes_def has_valid_pixel_def)

lemma crown_image_no_bins: "crown_image a 0 QRange qCal nQY nQX i = []"
  by (simp add: crown_image_def split: prod.split)

lemma crown_image_no_valid_pixel:
  assumes "0 \<le> nPhiBins" and "\<not> has_valid_pixel nQY nQX QRange qCal"
  shows "crown_image a nPhiBins QRange qCal nQY nQX i = replicate (nat nPhiBins) 0"
proof (cases "nPhiBins = 0")
  case True
  then show ?thesis by (simp add: crown_image_no_bins)
next
  case False
  then have pos: "0 < nPhiBins" using assms(1) by simp
  show ?thesis
    by (simp add: crown_image_spec [OF pos] spec_bin_count_def
        no_valid_pixel_empty_bins [OF assms(2)] map_replicate_const)
qed

lemma compute_crown_integral_no_valid_pixel:
  assumes "length (shape a) = 3"
    and "\<not> has_valid_pixel (shape a ! 1) (shape a ! 2) QRange qCal"
  shows "0 \<le> nPhiBins \<Longrightarrow> compute_crown_integral a nPhiBins QRange qCal =
           Inr (replicate (shape a ! 0) (replicate (nat nPhiBins) 0))"
    and "nPhiBins < 0 \<Longrightarrow> compute_crown_integral a nPhiBins QRange qCal = Inl NegativeDimension"
proof -
  show "compute_crown_integral a nPhiBins QRange qCal =
           Inr (replicate (shape a ! 0) (replicate (nat nPhiBins) 0))"
    if "0 \<le> nPhiBins"
    using assms that
    by (simp add: compute_crown_integral_def Let_def crown_image_no_valid_pixel
        map_replicate_const cong: map_cong)
  show "compute_crown_integral a nPhiBins QRange qCal = Inl NegativeDimension"
    if "nPhiBins < 0"
    using assms that by (simp add: compute_crown_integral_def Let_def)
qed

lemma compute_crown_integral_clamp_undefined:
  assumes "length (shape a) = 3" and "nPhiBins \<le> 0"
    and "has_valid_pixel (shape a ! 1) (shape a ! 2) QRange qCal"
  shows "compute_crown_integral a nPhiBins QRange qCal = Inl UndefinedBehaviour"
  using assms by (simp add: compute_crown_integral_def Let_def)

text \<open>
  Claim C5, as amended. \<open>compute_crown_integral\<close> has no configuration error and checks
  neither \<open>nPhiBins\<close> nor the radial range; on a 3-dimensional stack the inputs of the
  claim fare as follows. With \<open>qMin > qMax\<close> no pixel of the frame is valid. When no
  pixel is valid and \<open>nPhiBins \<ge> 0\<close>, the call on a writeable stack does not fail and
  returns the complete profile of \<open>nImages\<close> rows of \<open>nPhiBins\<close> zeros (rows of length
  0 for \<open>nPhiBins = 0\<close>), and the call on a read-only stack fails at the mutable
  accessor. When no pixel is valid and \<open>nPhiBins < 0\<close>, the call fails only where the
  result is allocated, after the geometry pass, on the negative dimension. When some
  pixel is valid and \<open>nPhiBins \<le> 0\<close>, the geometry pass calls \<open>std::clamp\<close> with
  \<open>lo > hi\<close> and the call has no defined result.
\<close>

theorem crown_integral_has_no_configuration_check:
  assumes "length (shape a) = 3"
  shows "(snd QRange < fst QRange
            \<longrightarrow> \<not> has_valid_pixel (shape a ! 1) (shape a ! 2) QRange qCal)
     \<and> (\<not> has_valid_pixel (shape a ! 1) (shape a ! 2) QRange qCal \<and> 0 \<le> nPhiBins
          \<longrightarrow> crown_integral_call True a nPhiBins QRange qCal
                = Inr (replicate (shape a ! 0) (replicate (nat nPhiBins) 0))
              \<and> crown_integral_call False a nPhiBins QRange qCal = Inl NotWriteable)
     \<and> (\<not> has_valid_pixel (shape a ! 1) (shape a ! 2) QRange qCal \<and> nPhiBins < 0
          \<longrightarrow> crown_integral_call writeable a nPhiBins QRange qCal = Inl NegativeDimension)
     \<and> (has_valid_pixel (shape a ! 1) (shape a ! 2) QRange qCal \<and> nPhiBins \<le> 0
          \<longrightarrow> crown_integral_call writeable a nPhiBins QRange qCal = Inl UndefinedBehaviour)"
  using compute_crown_integral_no_valid_pixel [OF assms, of QRange qCal nPhiBins]
    compute_crown_integral_clamp_undefined [OF assms, of nPhiBins QRange qCal]
    inverted_range_no_valid_pixel [of QRange "shape a ! 1" "shape a ! 2" qCal]
  by (auto simp: crown_integral_call_def)

text \<open>
  The claim as first stated fails: with \<open>QRange = (1, 0)\<close> and four bins the call
  returns a result, not an error.
\<close>

theorem inverted_range_is_not_rejected:
  "compute_crown_integral pair_frames 4 (1, 0) 1 = Inr [[0, 0, 0, 0], [0, 0, 0, 0]]"
proof -
  have "replicate (nat 4) (0::real) = [0, 0, 0, 0]"
    by (simp add: eval_nat_numeral)
  moreover have "\<not> has_valid_pixel (shape pair_frames ! 1) (shape pair_frames ! 2) (1, 0) 1"
    by (rule inverted_range_no_valid_pixel) simp
  ultimately show ?thesis
    using compute_crown_integral_no_valid_pixel(1) [of pair_frames "(1, 0)" 1 4]
      pair_frames_shape
    by (simp add: eval_nat_numeral)
qed

lemma strided_copy_shape:
  "length (shape strided_copy) = 3" "shape strided_copy ! 0 = 1"
  "shape strided_copy ! 1 = 1" "shape strided_copy ! 2 = 2"
  by (simp_all add: strided_copy_def)

lemma strided_copy_has_valid_pixel: "has_valid_pixel 1 2 (0, 1) 1"
proof -
  have "validPixels 1 2 (0, 1) 1 0 1"
    by (simp add: validPixels_def pixelsQ_def beamCenter_def)
  moreover have "(0::nat) < 1" "(1::nat) < 2" by simp_all
  ultimately show ?thesis
    unfolding has_valid_pixel_def by blast
qed

theorem crown_integral_has_no_configuration_check_witness:
  "length (shape strided_copy) = 3
   \<and> snd (2::real, 1::real) < fst (2::real, 1::real)
   \<and> crown_integral_call True strided_copy 3 (2, 1) 1 = Inr [[0, 0, 0]]
   \<and> crown_integral_call False strided_copy 3 (2, 1) 1 = Inl NotWriteable
   \<and> crown_integral_call True strided_copy 0 (2, 1) 1 = Inr [[]]
   \<and> crown_integral_call True strided_copy (- 1) (2, 1) 1 = Inl NegativeDimension
   \<and> has_valid_pixel 1 2 (0, 1) 1
   \<and> crown_integral_call True strided_copy 0 (0, 1) 1 = Inl UndefinedBehaviour"
  using crown_integral_has_no_configuration_check [of strided_copy "(2, 1)" 1 3 True]
    crown_integral_has_no_configuration_check [of strided_copy "(2, 1)" 1 0 True]
    crown_integral_has_no_configuration_check [of strided_copy "(2, 1)" 1 "- 1" True]
    crown_integral_has_no_configuration_check [of strided_copy "(0, 1)" 1 0 True]
    strided_copy_shape strided_copy_has_valid_pixel
  by (simp add: eval_nat_numeral)

text \<open>
  The integrator reads the samples through the strides, so its result depends on the
  samples at \<open>(iImage, iQY, iQX)\<close> only, not on how they lie in memory.
\<close>

lemma bin_pixels_cong:
  assumes "\<forall>y x. y < nQY \<and> x < nQX \<longrightarrow> sedData a i y x = sedData b i y x"
  shows "bin_pixels a nPhiBins QRange qCal nQY nQX i k
           = bin_pixels b nPhiBins QRange qCal nQY nQX i k"
  using assms by (auto simp: bin_pixels_def contributes_def)

lemma spec_bin_sum_cong:
  assumes "\<forall>y x. y < nQY \<and> x < nQX \<longrightarrow> sedData a i y x = sedData b i y x"
  shows "spec_bin_sum a nPhiBins QRange qCal nQY nQX i k
           = spec_bin_sum b nPhiBins QRange qCal nQY nQX i k"
  unfolding spec_bin_sum_def bin_pixels_cong [OF assms]
  using assms by (intro sum.cong refl) (auto simp: bin_pixels_def)

lemma crown_image_cong:
  assumes "0 \<le> nPhiBins"
    and "\<forall>y x. y < nQY \<and> x < nQX \<longrightarrow> sedData a i y x = sedData b i y x"
  shows "crown_image a nPhiBins QRange qCal nQY nQX i
           = crown_image b nPhiBins QRange qCal nQY nQX i"
proof (cases "nPhiBins = 0")
  case True
  then show ?thesis by (simp add: crown_image_no_bins)
next
  case False
  then have pos: "0 < nPhiBins" using assms(1) by simp
  show ?thesis
    by (simp add: crown_image_spec [OF pos] spec_bin_count_def
        bin_pixels_cong [OF assms(2)] spec_bin_sum_cong [OF assms(2)])
qed

lemma compute_crown_integral_cong:
  assumes "shape a = shape b"
    and "\<forall>i y x. i < shape a ! 0 \<and> y < shape a ! 1 \<and> x < shape a ! 2
           \<longrightarrow> sedData a i y x = sedData b i y x"
  shows "compute_crown_integral a nPhiBins QRange qCal
           = compute_crown_integral b nPhiBins QRange qCal"
proof (cases "0 \<le> nPhiBins")
  case False
  then show ?thesis
    using assms(1) by (simp add: compute_crown_integral_def Let_def)
next
  case True
  have "crown_image a nPhiBins QRange qCal (shape a ! 1) (shape a ! 2) i
          = crown_image b nPhiBins QRange qCal (shape a ! 1) (shape a ! 2) i"
    if "i < shape a ! 0" for i
    using True assms(2) that by (intro crown_image_cong) auto
  then show ?thesis
    using assms(1) by (simp add: compute_crown_integral_def Let_def cong: map_cong)
qed

lemma sedData_flag: "sedData (a\<lparr>c_style := flag\<rparr>) i y x = sedData a i y x"
  by (simp add: sedData_def element_at_def)

text \<open>
  Claim C4, as amended. \<open>compute_crown_integral\<close> never fails with a contiguity error
  and does not look at the contiguity flag. On a 3-dimensional stack with
  \<open>nPhiBins > 0\<close> the call returns one row per image when the stack is writeable,
  contiguous or not, and fails at the mutable accessor when it is read-only. Two stacks
  of the same shape and the same writeable flag with the same samples at every
  \<open>(iImage, iQY, iQX)\<close> give the same outcome, whatever their strides, negative ones
  included. Only \<open>compute_centers_of_mass\<close> rejects a 3-dimensional stack that is not
  C-contiguous.
\<close>

theorem crown_integral_ignores_contiguity:
  "crown_integral_call writeable a nPhiBins QRange qCal \<noteq> Inl ContiguityError
   \<and> crown_integral_call writeable (a\<lparr>c_style := flag\<rparr>) nPhiBins QRange qCal
       = crown_integral_call writeable a nPhiBins QRange qCal
   \<and> (length (shape a) = 3 \<and> 0 < nPhiBins \<longrightarrow>
        (\<exists>out. crown_integral_call True a nPhiBins QRange qCal = Inr out
               \<and> length out = shape a ! 0)
        \<and> crown_integral_call False a nPhiBins QRange qCal = Inl NotWriteable)
   \<and> (shape a = shape b \<and>
        (\<forall>i y x. i < shape a ! 0 \<and> y < shape a ! 1 \<and> x < shape a ! 2
           \<longrightarrow> sedData a i y x = sedData b i y x)
      \<longrightarrow> crown_integral_call writeable a nPhiBins QRange qCal
            = crown_integral_call writeable b nPhiBins QRange qCal)
   \<and> (length (shape a) = 3 \<and> \<not> c_style a
      \<longrightarrow> compute_centers_of_mass a threshold = Inl ContiguityError)"
proof -
  have "crown_integral_call writeable a nPhiBins QRange qCal \<noteq> Inl ContiguityError"
    by (simp add: crown_integral_call_def compute_crown_integral_def Let_def)
  moreover have "compute_crown_integral (a\<lparr>c_style := flag\<rparr>) nPhiBins QRange qCal
       = compute_crown_integral a nPhiBins QRange qCal"
    by (rule compute_crown_integral_cong) (simp_all add: sedData_flag)
  then have "crown_integral_call writeable (a\<lparr>c_style := flag\<rparr>) nPhiBins QRange qCal
       = crown_integral_call writeable a nPhiBins QRange qCal"
    by (simp add: crown_integral_call_def)
  moreover have "(\<exists>out. crown_integral_call True a nPhiBins QRange qCal = Inr out
               \<and> length out = shape a ! 0)
        \<and> crown_integral_call False a nPhiBins QRange qCal = Inl NotWriteable"
    if "length (shape a) = 3 \<and> 0 < nPhiBins"
    using that by (simp add: crown_integral_call_def compute_crown_integral_Inr)
  moreover have "compute_centers_of_mass a threshold = Inl ContiguityError"
    if "length (shape a) = 3 \<and> \<not> c_style a"
    using that by (simp add: compute_centers_of_mass_def)
  moreover have "crown_integral_call writeable a nPhiBins QRange qCal
            = crown_integral_call writeable b nPhiBins QRange qCal"
    if "shape a = shape b \<and>
        (\<forall>i y x. i < shape a ! 0 \<and> y < shape a ! 1 \<and> x < shape a ! 2
           \<longrightarrow> sedData a i y x = sedData b i y x)"
    using that compute_crown_integral_cong [of a b nPhiBins QRange qCal]
    by (simp add: crown_integral_call_def)
  ultimately show ?thesis
    by blast
qed

lemma strided_result:
  "compute_crown_integral strided 1 (0, 1) 1 = Inr [[6]]"
  by (simp add: compute_crown_integral_def crown_image_def crown_sums_def crown_row_def
    crown_pixel_def validPixels_def pixelsQ_def binIndicies_one_bin
    beamCenter_def sedData_def element_at_def strided_def upt1 upt2)

text \<open>
  The claim as first stated fails: \<open>strided\<close> is not C-contiguous and the integrator
  returns the mean of its two samples.
\<close>

theorem strided_stack_is_integrated:
  "\<not> c_style strided \<and> length (shape strided) = 3
   \<and> compute_crown_integral strided 1 (0, 1) 1 = Inr [[6]]"
  using strided_result by (simp add: strided_def)

lemma rows_reversed_shape:
  "length (shape rows_reversed) = 3" "shape rows_reversed ! 0 = 1"
  "shape rows_reversed ! 1 = 2" "shape rows_reversed ! 2 = 2"
  "shape rows_reversed = shape rows_reversed_copy" "\<not> c_style rows_reversed"
  by (simp_all add: rows_reversed_def rows_reversed_copy_def)

lemma rows_reversed_samples:
  "sedData rows_reversed 0 0 0 = 3" "sedData rows_reversed 0 0 1 = 4"
  "sedData rows_reversed 0 1 0 = 1" "sedData rows_reversed 0 1 1 = 2"
  "sedData rows_reversed_copy 0 0 0 = 3" "sedData rows_reversed_copy 0 0 1 = 4"
  "sedData rows_reversed_copy 0 1 0 = 1" "sedData rows_reversed_copy 0 1 1 = 2"
  by (simp_all add: sedData_def element_at_def rows_reversed_def rows_reversed_copy_def)

lemma rows_reversed_sums:
  "crown_sums rows_reversed 1 (0, 1) 1 2 2 0 = ([7], [3])"
  using rows_reversed_samples
  by (simp add: crown_sums_def crown_row_def crown_pixel_def validPixels_def pixelsQ_def
      beamCenter_def binIndicies_one_bin upt2)

lemma rows_reversed_result:
  "compute_crown_integral rows_reversed 1 (0, 1) 1 = Inr [[7 / 3]]"
  using rows_reversed_sums rows_reversed_shape
  by (simp add: compute_crown_integral_def crown_image_def)

theorem crown_integral_ignores_contiguity_witness:
  "length (shape rows_reversed) = 3 \<and> \<not> c_style rows_reversed \<and> c_style rows_reversed_copy
   \<and> strides rows_reversed ! 1 = - 2
   \<and> crown_integral_call True rows_reversed 1 (0, 1) 1 = Inr [[7 / 3]]
   \<and> crown_integral_call True rows_reversed_copy 1 (0, 1) 1 = Inr [[7 / 3]]
   \<and> crown_integral_call False rows_reversed 1 (0, 1) 1 = Inl NotWriteable
   \<and> compute_centers_of_mass rows_reversed 1 = Inl ContiguityError"
proof -
  have same: "\<forall>i y x. i < shape rows_reversed ! 0 \<and> y < shape rows_reversed ! 1
                 \<and> x < shape rows_reversed ! 2
           \<longrightarrow> sedData rows_reversed i y x = sedData rows_reversed_copy i y x"
    using rows_reversed_samples rows_reversed_shape
    by (auto simp: less_Suc_eq numeral_2_eq_2)
  note t = crown_integral_ignores_contiguity [of True rows_reversed 1 "(0, 1)" 1 True rows_reversed_copy 1]
  from t rows_reversed_shape(5) same
  have "crown_integral_call True rows_reversed 1 (0, 1) 1
          = crown_integral_call True rows_reversed_copy 1 (0, 1) 1"
    by blast
  moreover from t rows_reversed_shape
  have "crown_integral_call False rows_reversed 1 (0, 1) 1 = Inl NotWriteable"
    and "compute_centers_of_mass rows_reversed 1 = Inl ContiguityError"
    by simp_all
  moreover have "crown_integral_call True rows_reversed 1 (0, 1) 1 = Inr [[7 / 3]]"
    using rows_reversed_result by (simp add: crown_integral_call_def)
  ultimately show ?thesis
    by (simp add: rows_reversed_def rows_reversed_copy_def)
qed

end
